theory Spec2Isabelle
  imports Complex_Main "HOL-Library.Log_Nat" "HOL-Library.Code_Target_Numeral"
begin

section \<open>Python primitives used by \<open>llm_inference.py\<close>\<close>

text \<open>
  Exceptions are values. \<open>ValueError\<close> carries its message, since the source
  distinguishes its failures only by the message; the message of the built-in
  \<open>range\<close> is the one CPython prints.
\<close>

datatype py_error =
    ZeroDivisionError
  | ValueError string
  | IndexError
  | TypeError string
  | OverflowError string
  | BackendFailure string

subsection \<open>Decimal rendering of integers, as an f-string does it\<close>

definition digit_char :: "nat \<Rightarrow> char" where
  "digit_char d = ''0123456789'' ! d"

function str_nat :: "nat \<Rightarrow> string" where
  "str_nat n = (if n < 10 then [digit_char n] else str_nat (n div 10) @ [digit_char (n mod 10)])"
  by pat_completeness auto
termination
  by (relation "measure id") auto

declare str_nat.simps [simp del]

definition str_int :: "int \<Rightarrow> string" where
  "str_int i = (if i < 0 then CHR ''-'' # str_nat (nat (- i)) else str_nat (nat i))"

subsection \<open>\<open>range(start, stop, step)\<close> and list slices\<close>

text \<open>
  The length of a range is computed as CPython computes it; element \<open>j\<close> is
  \<open>start + j * step\<close>. A zero step raises \<open>ValueError\<close>.
\<close>

definition range_length :: "int \<Rightarrow> int \<Rightarrow> int \<Rightarrow> nat" where
  "range_length start stop step =
     (let lo = (if 0 < step then start else stop);
          hi = (if 0 < step then stop else start)
      in if hi \<le> lo then 0 else nat ((hi - lo - 1) div \<bar>step\<bar> + 1))"

definition py_range :: "int \<Rightarrow> int \<Rightarrow> int \<Rightarrow> py_error + int list" where
  "py_range start stop step =
     (if step = 0 then Inl (ValueError ''range() arg 3 must not be zero'')
      else Inr (map (\<lambda>j. start + int j * step) [0..<range_length start stop step]))"

text \<open>
  \<open>xs[i:j]\<close>: a negative bound counts from the end, and both bounds are clamped
  to \<open>[0, len(xs)]\<close>; a slice never raises.
\<close>

definition slice_bound :: "int \<Rightarrow> nat \<Rightarrow> nat" where
  "slice_bound i n = (if i < 0 then nat (max (i + int n) 0) else min (nat i) n)"

definition py_slice :: "'a list \<Rightarrow> int \<Rightarrow> int \<Rightarrow> 'a list" where
  "py_slice xs i j =
     (let lo = slice_bound i (length xs); hi = slice_bound j (length xs)
      in take (hi - lo) (drop lo xs))"

subsection \<open>Floats: IEEE 754 binary64, round to nearest, ties to even\<close>

text \<open>
  A Python float is a finite double, an infinity or NaN. A finite double is the real
  number it denotes (the sign of a zero is not kept: nothing the source computes tells
  \<open>-0.0\<close> from \<open>0.0\<close>). \<open>ilog2 x\<close> is \<open>floor(log2 x)\<close> for \<open>x > 0\<close>. A double has
  53 significant bits and its unit in the last place is at least \<open>2^-1074\<close>; a real
  is rounded to the nearest multiple of the unit of its binade, a tie going to the even
  multiple, and a result of magnitude \<open>2^1024\<close> or more is an infinity.
\<close>

datatype pyfloat = Finite real | PosInf | NegInf | NaN

definition ilog2 :: "real \<Rightarrow> int" where
  "ilog2 x = (if 1 \<le> x then bitlen \<lfloor>x\<rfloor> - 1 else - bitlen (\<lceil>1 / x\<rceil> - 1))"

definition round_half_even :: "real \<Rightarrow> int" where
  "round_half_even z =
     (let n = \<lfloor>z\<rfloor>; d = z - of_int n
      in if d < 1 / 2 then n else if 1 / 2 < d then n + 1 else if even n then n else n + 1)"

definition ulp_exponent :: "real \<Rightarrow> int" where
  "ulp_exponent x = max (ilog2 \<bar>x\<bar> - 52) (- 1074)"

definition round_to_grid :: "real \<Rightarrow> real" where
  "round_to_grid x =
     (let u = 2 powi ulp_exponent x in of_int (round_half_even (x / u)) * u)"

definition round_double :: "real \<Rightarrow> pyfloat" where
  "round_double x =
     (if x = 0 then Finite 0
      else
        let r = round_to_grid x
        in if 2 powi 1024 \<le> \<bar>r\<bar> then (if 0 < x then PosInf else NegInf) else Finite r)"

text \<open>
  The reals that are doubles, but for the bound on the magnitude. The predicate is used
  in the proofs only; nothing that is computed calls it.
\<close>

definition representable :: "real \<Rightarrow> bool" where
  "representable d = (\<exists>m k. d = of_int m * 2 powi k \<and> \<bar>m\<bar> \<le> 2 ^ 53 \<and> - 1074 \<le> k)"

text \<open>
  The float of a decimal literal, or of the text of a command-line argument: the
  conversion is correctly rounded.
\<close>

definition py_float :: "real \<Rightarrow> pyfloat" where
  "py_float x = round_double x"

text \<open>\<open>a * b\<close> on floats: the exact product, rounded; the IEEE rules for infinities and NaN.\<close>

fun fmul :: "pyfloat \<Rightarrow> pyfloat \<Rightarrow> pyfloat" where
  "fmul (Finite a) (Finite b) = round_double (a * b)"
| "fmul NaN _ = NaN"
| "fmul _ NaN = NaN"
| "fmul PosInf (Finite b) = (if b = 0 then NaN else if 0 < b then PosInf else NegInf)"
| "fmul NegInf (Finite b) = (if b = 0 then NaN else if 0 < b then NegInf else PosInf)"
| "fmul (Finite a) PosInf = (if a = 0 then NaN else if 0 < a then PosInf else NegInf)"
| "fmul (Finite a) NegInf = (if a = 0 then NaN else if 0 < a then NegInf else PosInf)"
| "fmul PosInf PosInf = PosInf"
| "fmul PosInf NegInf = NegInf"
| "fmul NegInf PosInf = NegInf"
| "fmul NegInf NegInf = PosInf"

text \<open>
  \<open>a / b\<close> on integers: the exact quotient, correctly rounded; it raises on a zero
  divisor and when the quotient is too large for a float.
\<close>

definition int_truediv :: "int \<Rightarrow> int \<Rightarrow> py_error + pyfloat" where
  "int_truediv a b =
     (if b = 0 then Inl ZeroDivisionError
      else
        (case round_double (real_of_int a / real_of_int b) of
           Finite r \<Rightarrow> Inr (Finite r)
         | _ \<Rightarrow> Inl (OverflowError ''integer division result too large for a float'')))"

text \<open>\<open>math.floor\<close> of a float: an integer, or an exception on an infinity or NaN.\<close>

fun math_floor :: "pyfloat \<Rightarrow> py_error + int" where
  "math_floor (Finite x) = Inr \<lfloor>x\<rfloor>"
| "math_floor NaN = Inl (ValueError ''cannot convert float NaN to integer'')"
| "math_floor _ = Inl (OverflowError ''cannot convert float infinity to integer'')"

subsection \<open>A comprehension whose element expression may raise\<close>

fun comprehension :: "('a \<Rightarrow> py_error + 'b) \<Rightarrow> 'a list \<Rightarrow> py_error + 'b list" where
  "comprehension f [] = Inr []"
| "comprehension f (x # xs) =
     (case f x of
        Inl e \<Rightarrow> Inl e
      | Inr y \<Rightarrow> (case comprehension f xs of Inl e \<Rightarrow> Inl e | Inr ys \<Rightarrow> Inr (y # ys)))"

section \<open>\<open>LLM.reshape_model_outputs\<close>\<close>

text \<open>
  \<^verbatim>\<open>
  num_return_sequences = len(outputs)
  return_seqs_per_input = num_return_sequences//input_batch_size
  outputs = [outputs[i:i+return_seqs_per_input]
             for i in range(0, num_return_sequences, return_seqs_per_input)]
  if len(outputs) != input_batch_size:
      raise ValueError(f"Got {len(outputs)} outputs from model but expected {input_batch_size}!")
  if len(outputs[0]) != return_seqs_per_input:
      raise ValueError(f"Got {len(outputs[0])} return sequences but expected {return_seqs_per_input}!")
  return outputs
  \<close>
  Python's \<open>//\<close> on integers is floor division, as \<open>div\<close> on \<open>int\<close> is; it
  raises on a zero divisor, where \<open>div\<close> returns 0. The logging call is left out.
\<close>

definition count_mismatch :: "int \<Rightarrow> int \<Rightarrow> py_error" where
  "count_mismatch got expected =
     ValueError (''Got '' @ str_int got @ '' outputs from model but expected ''
                 @ str_int expected @ ''!'')"

definition size_mismatch :: "int \<Rightarrow> int \<Rightarrow> py_error" where
  "size_mismatch got expected =
     ValueError (''Got '' @ str_int got @ '' return sequences but expected ''
                 @ str_int expected @ ''!'')"

definition reshape_model_outputs :: "string list \<Rightarrow> int \<Rightarrow> py_error + string list list" where
  "reshape_model_outputs outputs input_batch_size =
     (let num_return_sequences = int (length outputs) in
      if input_batch_size = 0 then Inl ZeroDivisionError
      else
        let return_seqs_per_input = num_return_sequences div input_batch_size in
        case py_range 0 num_return_sequences return_seqs_per_input of
          Inl e \<Rightarrow> Inl e
        | Inr idxs \<Rightarrow>
            let outputs' = map (\<lambda>i. py_slice outputs i (i + return_seqs_per_input)) idxs in
            if int (length outputs') \<noteq> input_batch_size
            then Inl (count_mismatch (int (length outputs')) input_batch_size)
            else
              (case outputs' of
                 [] \<Rightarrow> Inl IndexError
               | first # _ \<Rightarrow>
                   if int (length first) \<noteq> return_seqs_per_input
                   then Inl (size_mismatch (int (length first)) return_seqs_per_input)
                   else Inr outputs'))"

section \<open>\<open>InferenceArguments\<close>\<close>

text \<open>
  The dataclass, field by field. A field declared \<open>str\<close> or \<open>int\<close> with default
  \<open>None\<close> is an option. A field declared \<open>float\<close> is written as the real number
  given for it; the float that Python holds for it is \<open>py_float\<close> of that number,
  the nearest double (the number itself when it is a double already, lemma
  \<open>py_float_of_double\<close>). Only \<open>set_max_memory\<close> computes with a float field.
\<close>

record InferenceArguments =
  model_name_or_path :: string
  load_in_8bit :: bool
  offload_state_dict :: bool
  offload_folder :: "string option"
  device_map :: string
  max_memory :: real
  seed :: int
  use_cuda :: bool
  batch_size :: int
  min_length :: "int option"
  max_new_tokens :: int
  length_penalty :: real
  no_early_stop :: bool
  num_return_sequences :: int
  num_beams :: int
  do_sample :: bool
  temperature :: real
  top_k :: int
  top_p :: real
  verbose :: bool
  input_file :: "string option"
  output_dir :: string
  output_file :: "string option"
  source_key :: string
  prompt_prefix :: "string option"
  prompt_format :: string
  few_shot_n :: int
  example_separator :: string
  n_refs :: int
  ref_delimiter :: string
  examples :: "string option"

text \<open>
  The defaults of the \<open>field(default=...)\<close> declarations. The raw strings
  \<open>r"\n\n"\<close> and \<open>r"\t"\<close> hold a backslash (character 0x5C) and a letter.
\<close>

definition field_defaults :: "string \<Rightarrow> InferenceArguments" where
  "field_defaults name =
     \<lparr> model_name_or_path = name,
       load_in_8bit = True,
       offload_state_dict = True,
       offload_folder = None,
       device_map = ''auto'',
       max_memory = 1.0,
       seed = 42,
       use_cuda = True,
       batch_size = 8,
       min_length = None,
       max_new_tokens = 100,
       length_penalty = 1.0,
       no_early_stop = False,
       num_return_sequences = 1,
       num_beams = 1,
       do_sample = True,
       temperature = 1.0,
       top_k = 0,
       top_p = 0.9,
       verbose = False,
       input_file = None,
       output_dir = ''data/outputs/'',
       output_file = None,
       source_key = ''complex'',
       prompt_prefix = None,
       prompt_format = ''prefix_initial'',
       few_shot_n = 0,
       example_separator = [CHR 0x5C, CHR ''n'', CHR 0x5C, CHR ''n''],
       n_refs = 1,
       ref_delimiter = [CHR 0x5C, CHR ''t''],
       examples = None \<rparr>"

text \<open>A keyword argument of the generated \<open>__init__\<close>: one constructor per field with a default.\<close>

datatype kwarg =
    Load_in_8bit bool
  | Offload_state_dict bool
  | Offload_folder "string option"
  | Device_map string
  | Max_memory real
  | Seed int
  | Use_cuda bool
  | Batch_size int
  | Min_length "int option"
  | Max_new_tokens int
  | Length_penalty real
  | No_early_stop bool
  | Num_return_sequences int
  | Num_beams int
  | Do_sample bool
  | Temperature real
  | Top_k int
  | Top_p real
  | Verbose bool
  | Input_file "string option"
  | Output_dir string
  | Output_file "string option"
  | Source_key string
  | Prompt_prefix "string option"
  | Prompt_format string
  | Few_shot_n int
  | Example_separator string
  | N_refs int
  | Ref_delimiter string
  | Examples "string option"

fun set_field :: "kwarg \<Rightarrow> InferenceArguments \<Rightarrow> InferenceArguments" where
  "set_field (Load_in_8bit v) a = a\<lparr>load_in_8bit := v\<rparr>"
| "set_field (Offload_state_dict v) a = a\<lparr>offload_state_dict := v\<rparr>"
| "set_field (Offload_folder v) a = a\<lparr>offload_folder := v\<rparr>"
| "set_field (Device_map v) a = a\<lparr>device_map := v\<rparr>"
| "set_field (Max_memory v) a = a\<lparr>max_memory := v\<rparr>"
| "set_field (Seed v) a = a\<lparr>seed := v\<rparr>"
| "set_field (Use_cuda v) a = a\<lparr>use_cuda := v\<rparr>"
| "set_field (Batch_size v) a = a\<lparr>batch_size := v\<rparr>"
| "set_field (Min_length v) a = a\<lparr>min_length := v\<rparr>"
| "set_field (Max_new_tokens v) a = a\<lparr>max_new_tokens := v\<rparr>"
| "set_field (Length_penalty v) a = a\<lparr>length_penalty := v\<rparr>"
| "set_field (No_early_stop v) a = a\<lparr>no_early_stop := v\<rparr>"
| "set_field (Num_return_sequences v) a = a\<lparr>num_return_sequences := v\<rparr>"
| "set_field (Num_beams v) a = a\<lparr>num_beams := v\<rparr>"
| "set_field (Do_sample v) a = a\<lparr>do_sample := v\<rparr>"
| "set_field (Temperature v) a = a\<lparr>temperature := v\<rparr>"
| "set_field (Top_k v) a = a\<lparr>top_k := v\<rparr>"
| "set_field (Top_p v) a = a\<lparr>top_p := v\<rparr>"
| "set_field (Verbose v) a = a\<lparr>verbose := v\<rparr>"
| "set_field (Input_file v) a = a\<lparr>input_file := v\<rparr>"
| "set_field (Output_dir v) a = a\<lparr>output_dir := v\<rparr>"
| "set_field (Output_file v) a = a\<lparr>output_file := v\<rparr>"
| "set_field (Source_key v) a = a\<lparr>source_key := v\<rparr>"
| "set_field (Prompt_prefix v) a = a\<lparr>prompt_prefix := v\<rparr>"
| "set_field (Prompt_format v) a = a\<lparr>prompt_format := v\<rparr>"
| "set_field (Few_shot_n v) a = a\<lparr>few_shot_n := v\<rparr>"
| "set_field (Example_separator v) a = a\<lparr>example_separator := v\<rparr>"
| "set_field (N_refs v) a = a\<lparr>n_refs := v\<rparr>"
| "set_field (Ref_delimiter v) a = a\<lparr>ref_delimiter := v\<rparr>"
| "set_field (Examples v) a = a\<lparr>examples := v\<rparr>"

text \<open>
  The \<open>__init__\<close> that \<open>@dataclass\<close> generates: \<open>model_name_or_path\<close> has no
  default, so leaving it out raises \<open>TypeError\<close>; every other field takes the
  keyword's value, or its default. The class has no \<open>__post_init__\<close>: nothing is
  checked.
\<close>

definition InferenceArguments_init :: "string option \<Rightarrow> kwarg list \<Rightarrow> py_error + InferenceArguments" where
  "InferenceArguments_init name kwargs =
     (case name of
        None \<Rightarrow> Inl (TypeError ''missing 1 required positional argument: model_name_or_path'')
      | Some n \<Rightarrow> Inr (fold set_field kwargs (field_defaults n)))"

section \<open>\<open>LLM.set_max_memory\<close>\<close>

text \<open>
  What the function reads from CUDA: \<open>torch.cuda.device_count()\<close> and
  \<open>torch.cuda.get_device_properties(0).total_memory\<close>, the bytes of device 0 (no
  other device is asked).
\<close>

record cuda =
  device_count :: nat
  total_memory :: nat

text \<open>A key of the \<open>max_memory\<close> dictionary: a device index, or the string \<open>'cpu'\<close>.\<close>

datatype device = Gpu nat | Cpu

text \<open>
  \<^verbatim>\<open>
  n_gpus = torch.cuda.device_count()
  if self.args.max_memory and self.args.max_memory != 1.0 and n_gpus > 1:
      t = torch.cuda.get_device_properties(0).total_memory / (1024*1024*1024)
      max_memory = {
          i:(f"{math.floor(t*self.args.max_memory)}GiB" if i > 0
             else f"{math.floor(t*self.args.max_memory*0.6)}GiB") for i in range(n_gpus)
          }
      max_memory['cpu'] = '400GiB'
      return max_memory
  else:
      return None
  \<close>
  A float is true when it is not zero; \<open>1024*1024*1024\<close> is an integer and the
  division is the true division of integers; each \<open>*\<close> is a float product, rounded.
  The element of index 0 is computed first, so an exception of \<open>math.floor\<close> there
  ends the call. The keys of the comprehension are distinct, so the order in which
  \<open>map_of\<close> reads the pairs does not matter. The two logging calls are left out.
\<close>

definition set_max_memory ::
  "InferenceArguments \<Rightarrow> cuda \<Rightarrow> py_error + (device \<rightharpoonup> string) option" where
  "set_max_memory args env =
     (let n_gpus = device_count env;
          f = py_float (max_memory args)
      in
      if f \<noteq> Finite 0 \<and> f \<noteq> Finite 1 \<and> n_gpus > 1
      then
        (case int_truediv (int (total_memory env)) (1024 * 1024 * 1024) of
           Inl e \<Rightarrow> Inl e
         | Inr t \<Rightarrow>
             (case comprehension
                     (\<lambda>i. case (if i > 0 then math_floor (fmul t f)
                                else math_floor (fmul (fmul t f) (py_float 0.6))) of
                            Inl e \<Rightarrow> Inl e
                          | Inr b \<Rightarrow> Inr (Gpu i, str_int b @ ''GiB''))
                     [0..<n_gpus] of
                Inl e \<Rightarrow> Inl e
              | Inr max_memory_items \<Rightarrow>
                  Inr (Some ((map_of max_memory_items)(Cpu \<mapsto> ''400GiB'')))))
      else Inr None)"

text \<open>
  Reading a key of the returned plan, as the loader that receives \<open>max_memory=...\<close>
  does; \<open>None\<close> when the call raised, when there is no plan and when there is no such
  key.
\<close>

definition budget_of :: "py_error + (device \<rightharpoonup> string) option \<Rightarrow> device \<Rightarrow> string option" where
  "budget_of result key = (case result of Inr (Some m) \<Rightarrow> m key | _ \<Rightarrow> None)"

section \<open>\<open>LLM.generate_from_model\<close>\<close>

text \<open>
  The tokenizer, the device and the model are outside the repository. They are
  parameters: four functions that may fail (the tokenizer call, \<open>.cuda()\<close> on the
  token matrix, \<open>generate\<close> and \<open>batch_decode\<close>); a token matrix is a list of rows.
  The keyword arguments of \<open>self.model.generate\<close> are a record (prefixed \<open>kw_\<close>,
  since the dataclass has fields of the same names).
\<close>

type_synonym token_matrix = "int list list"

record generate_kwargs =
  kw_input_ids :: token_matrix
  kw_max_new_tokens :: int
  kw_min_length :: "int option"
  kw_num_beams :: int
  kw_num_return_sequences :: int
  kw_early_stopping :: bool
  kw_do_sample :: bool
  kw_temperature :: real
  kw_top_k :: int
  kw_top_p :: real

record backend =
  tokenizer :: "string list \<Rightarrow> py_error + token_matrix"
  to_cuda :: "token_matrix \<Rightarrow> py_error + token_matrix"
  generate :: "generate_kwargs \<Rightarrow> py_error + token_matrix"
  batch_decode :: "token_matrix \<Rightarrow> bool \<Rightarrow> py_error + string list"

text \<open>
  \<^verbatim>\<open>
  encoded_inputs = self.tokenizer(inputs, return_tensors='pt', padding=True)
  model_outputs = self.model.generate(
      input_ids=encoded_inputs['input_ids'].cuda(),
      max_new_tokens=self.args.max_new_tokens,
      min_length=self.args.min_length,
      num_beams=self.args.num_beams,
      num_return_sequences=self.args.num_return_sequences,
      early_stopping=not self.args.no_early_stop,
      do_sample=self.args.do_sample,
      temperature=self.args.temperature,
      top_k=self.args.top_k,
      top_p=self.args.top_p,
      )
  cur_batch_size = encoded_inputs['input_ids'].shape[0]
  model_outputs = self.tokenizer.batch_decode(model_outputs, skip_special_tokens=True)
  return self.reshape_model_outputs(model_outputs, cur_batch_size)
  \<close>
  An exception of any of the four calls ends the call: when \<open>.cuda()\<close> raises (a
  host without CUDA), \<open>generate\<close> is not called. \<open>shape[0]\<close> of a matrix is its
  number of rows, read from the matrix the tokenizer returned. The second argument of
  \<open>batch_decode\<close> is \<open>skip_special_tokens\<close>. Timing and logging are left out.
\<close>

definition generate_from_model ::
  "backend \<Rightarrow> InferenceArguments \<Rightarrow> string list \<Rightarrow> py_error + string list list" where
  "generate_from_model be args inputs =
     (case tokenizer be inputs of
        Inl e \<Rightarrow> Inl e
      | Inr encoded_inputs \<Rightarrow>
          (case to_cuda be encoded_inputs of
             Inl e \<Rightarrow> Inl e
           | Inr input_ids \<Rightarrow>
               (case generate be
                       \<lparr> kw_input_ids = input_ids,
                         kw_max_new_tokens = max_new_tokens args,
                         kw_min_length = min_length args,
                         kw_num_beams = num_beams args,
                         kw_num_return_sequences = num_return_sequences args,
                         kw_early_stopping = (\<not> no_early_stop args),
                         kw_do_sample = do_sample args,
                         kw_temperature = temperature args,
                         kw_top_k = top_k args,
                         kw_top_p = top_p args \<rparr> of
                  Inl e \<Rightarrow> Inl e
                | Inr model_outputs \<Rightarrow>
                    let cur_batch_size = int (length encoded_inputs) in
                    (case batch_decode be model_outputs True of
                       Inl e \<Rightarrow> Inl e
                     | Inr decoded \<Rightarrow> reshape_model_outputs decoded cur_batch_size))))"

section \<open>Properties of the reshaper\<close>

subsection \<open>Chunks of a list\<close>

lemma py_slice_chunk:
  "py_slice xs (int j * int k) (int j * int k + int k) = take k (drop (j * k) xs)"
proof -
  have a: "slice_bound (int j * int k) (length xs) = min (j * k) (length xs)"
    by (simp add: slice_bound_def nat_mult_distrib flip: of_nat_mult)
  have b: "slice_bound (int j * int k + int k) (length xs) = min (j * k + k) (length xs)"
    by (simp add: slice_bound_def flip: of_nat_mult of_nat_add)
  show ?thesis
  proof (cases "j * k \<le> length xs")
    case True
    then show ?thesis by (simp add: py_slice_def a b Let_def min_def)
  next
    case False
    then show ?thesis by (simp add: py_slice_def a b Let_def min_def)
  qed
qed

lemma concat_chunks:
  "concat (map (\<lambda>j. take k (drop (j * k) xs)) [0..<n]) = take (n * k) xs"
proof (induction n)
  case 0
  show ?case by simp
next
  case (Suc n)
  have "take (Suc n * k) xs = take (n * k + k) xs" by (simp add: add.commute)
  also have "\<dots> = take (n * k) xs @ take k (drop (n * k) xs)" by (rule take_add)
  finally show ?case using Suc by simp
qed

lemma chunk_count_exact:
  fixes M B :: int
  assumes B: "0 < B" and k: "0 < M div B" and c: "(M - 1) div (M div B) + 1 = B"
  shows "M mod B = 0"
proof (rule ccontr)
  assume "M mod B \<noteq> 0"
  with B have r: "1 \<le> M mod B" by (smt (verit) pos_mod_sign)
  have "M = B * (M div B) + M mod B" by simp
  with r have "B * (M div B) \<le> M - 1" by linarith
  then have "(B * (M div B)) div (M div B) \<le> (M - 1) div (M div B)"
    using k by (rule zdiv_mono1)
  with k have "B \<le> (M - 1) div (M div B)" by simp
  with c show False by linarith
qed

lemma chunk_count_divisible:
  fixes M B :: int
  assumes B: "0 < B" and k: "0 < M div B" and d: "B dvd M"
  shows "(M - 1) div (M div B) + 1 = B"
proof -
  from d have M: "M = (M div B) * B" by simp
  have "M - 1 = (M div B) * (B - 1) + (M div B - 1)"
    by (subst M) (simp add: algebra_simps)
  then have "(M - 1) div (M div B) = B - 1"
    by (rule int_div_pos_eq) (use k in simp_all)
  then show ?thesis by simp
qed

lemma reshape_positive_step:
  fixes outputs :: "string list" and B :: int
  assumes B: "0 < B" and k: "0 < int (length outputs) div B"
  shows "reshape_model_outputs outputs B =
           (if (int (length outputs) - 1) div (int (length outputs) div B) + 1 \<noteq> B
            then Inl (count_mismatch ((int (length outputs) - 1) div (int (length outputs) div B) + 1) B)
            else Inr (map (\<lambda>j. take (nat (int (length outputs) div B))
                                   (drop (j * nat (int (length outputs) div B)) outputs))
                          [0..<nat B]))"
proof -
  define M where "M = int (length outputs)"
  define kk where "kk = M div B"
  define n where "n = nat ((M - 1) div kk + 1)"
  have kk: "0 < kk" using k by (simp add: kk_def M_def)
  have M: "0 < M"
  proof (rule ccontr)
    assume "\<not> 0 < M"
    then have "M = 0" by (simp add: M_def)
    with kk show False by (simp add: kk_def)
  qed
  have kM: "kk \<le> M"
  proof -
    have "M div B \<le> M div 1" using M by (intro zdiv_mono2) (use B in simp_all)
    then show ?thesis by (simp add: kk_def)
  qed
  have npos: "0 \<le> (M - 1) div kk" using M kk by (simp add: pos_imp_zdiv_nonneg_iff)
  have n: "int n = (M - 1) div kk + 1" using npos by (simp add: n_def)
  have rl: "range_length 0 M kk = n"
    using kk M by (simp add: range_length_def n_def)
  have rng: "py_range 0 M kk = Inr (map (\<lambda>j. int j * kk) [0..<n])"
    using kk by (simp add: py_range_def rl)
  have chunks: "map (\<lambda>i. py_slice outputs i (i + kk)) (map (\<lambda>j. int j * kk) [0..<n])
                = map (\<lambda>j. take (nat kk) (drop (j * nat kk) outputs)) [0..<n]"
  proof -
    have "py_slice outputs (int j * kk) (int j * kk + kk)
            = take (nat kk) (drop (j * nat kk) outputs)" for j
      using py_slice_chunk [of outputs j "nat kk"] kk by simp
    then show ?thesis by (simp add: comp_def)
  qed
  have eq: "reshape_model_outputs outputs B =
      (if int n \<noteq> B then Inl (count_mismatch (int n) B)
       else (case map (\<lambda>j. take (nat kk) (drop (j * nat kk) outputs)) [0..<n] of
               [] \<Rightarrow> Inl IndexError
             | first # _ \<Rightarrow>
                 if int (length first) \<noteq> kk
                 then Inl (size_mismatch (int (length first)) kk)
                 else Inr (map (\<lambda>j. take (nat kk) (drop (j * nat kk) outputs)) [0..<n])))"
    unfolding reshape_model_outputs_def Let_def M_def [symmetric] kk_def [symmetric]
      rng sum.case chunks
    using B by simp
  have first: "int (length (take (nat kk) outputs)) = kk"
    using kM kk unfolding M_def by (simp add: min_def) arith
  have "reshape_model_outputs outputs B =
      (if (M - 1) div kk + 1 \<noteq> B then Inl (count_mismatch ((M - 1) div kk + 1) B)
       else Inr (map (\<lambda>j. take (nat kk) (drop (j * nat kk) outputs)) [0..<nat B]))"
  proof (cases "int n = B")
    case False
    then show ?thesis unfolding eq using n by simp
  next
    case True
    then have nB: "nat B = n" by auto
    from True B have "0 < n" by simp
    then have upt: "[0..<n] = 0 # [1..<n]" by (simp add: upt_conv_Cons)
    have "reshape_model_outputs outputs B =
            Inr (map (\<lambda>j. take (nat kk) (drop (j * nat kk) outputs)) [0..<n])"
      unfolding eq using True first by (subst (1) upt) simp
    then show ?thesis using True n by (simp add: nB)
  qed
  then show ?thesis by (simp add: M_def kk_def)
qed


lemma chunk_length:
  assumes "n * k = length xs" and "j < n"
  shows "length (take k (drop (j * k) xs)) = k"
proof -
  from \<open>j < n\<close> have "Suc j * k \<le> n * k" by (intro mult_le_mono1) simp
  with assms(1) have "j * k + k \<le> length xs" by (simp add: add.commute)
  then show ?thesis by simp
qed

lemma reshape_zero_step:
  assumes "B \<noteq> 0" and "int (length outputs) div B = 0"
  shows "reshape_model_outputs outputs B = Inl (ValueError ''range() arg 3 must not be zero'')"
  using assms by (simp add: reshape_model_outputs_def py_range_def)

lemma reshape_negative_batch:
  assumes "B < 0"
  shows "\<exists>e. reshape_model_outputs outputs B = Inl e"
proof (cases "int (length outputs) div B = 0")
  case True
  with assms show ?thesis by (simp add: reshape_zero_step)
next
  case False
  have "int (length outputs) div B \<le> 0"
    using assms by (simp add: div_nonneg_neg_le0)
  with False have neg: "int (length outputs) div B < 0" by simp
  then have "range_length 0 (int (length outputs)) (int (length outputs) div B) = 0"
    by (simp add: range_length_def)
  with assms False show ?thesis
    by (simp add: reshape_model_outputs_def py_range_def)
qed

lemma reshape_divisible:
  assumes B: "0 < B" and dvd: "B dvd int (length outputs)"
    and k: "0 < int (length outputs) div B"
  shows "\<exists>groups. reshape_model_outputs outputs B = Inr groups
           \<and> int (length groups) = B
           \<and> (\<forall>g \<in> set groups. int (length g) = int (length outputs) div B)
           \<and> (\<forall>i < length groups.
                 groups ! i = take (nat (int (length outputs) div B))
                                (drop (i * nat (int (length outputs) div B)) outputs))
           \<and> concat groups = outputs"
proof -
  define kn where "kn = nat (int (length outputs) div B)"
  define groups where "groups = map (\<lambda>j. take kn (drop (j * kn) outputs)) [0..<nat B]"
  have cnt: "(int (length outputs) - 1) div (int (length outputs) div B) + 1 = B"
    using B k dvd by (rule chunk_count_divisible)
  have res: "reshape_model_outputs outputs B = Inr groups"
    using reshape_positive_step [OF B k] cnt by (simp add: groups_def kn_def)
  have "int (nat B * kn) = B * (int (length outputs) div B)"
    using B k by (simp add: kn_def)
  also have "\<dots> = int (length outputs)" using dvd by simp
  finally have total: "nat B * kn = length outputs" by linarith
  have len: "int (length groups) = B" using B by (simp add: groups_def)
  have each: "\<forall>g \<in> set groups. int (length g) = int (length outputs) div B"
  proof
    fix g assume "g \<in> set groups"
    then obtain j where j: "j < nat B" and g: "g = take kn (drop (j * kn) outputs)"
      by (auto simp: groups_def)
    have "length g = kn" unfolding g using total j by (rule chunk_length)
    then show "int (length g) = int (length outputs) div B"
      using k by (simp add: kn_def)
  qed
  have nth: "\<forall>i < length groups. groups ! i = take kn (drop (i * kn) outputs)"
    by (simp add: groups_def)
  have cat: "concat groups = outputs"
    unfolding groups_def concat_chunks using total by simp
  from res len each nth cat show ?thesis unfolding kn_def by blast
qed

lemma reshape_success_positive:
  assumes ok: "reshape_model_outputs outputs B = Inr groups"
  shows "0 < B \<and> 0 < int (length outputs) div B"
proof -
  have B0: "0 < B"
  proof (rule ccontr)
    assume "\<not> 0 < B"
    then consider "B = 0" | "B < 0" by linarith
    then show False
    proof cases
      case 1
      with ok show False by (simp add: reshape_model_outputs_def)
    next
      case 2
      from reshape_negative_batch [OF this, of outputs] ok show False by auto
    qed
  qed
  have "0 < int (length outputs) div B"
  proof (rule ccontr)
    assume "\<not> 0 < int (length outputs) div B"
    moreover have "0 \<le> int (length outputs) div B"
      using B0 by (simp add: pos_imp_zdiv_nonneg_iff)
    ultimately have "int (length outputs) div B = 0" by simp
    with B0 ok show False by (simp add: reshape_zero_step)
  qed
  with B0 show ?thesis by simp
qed

subsection \<open>The claims about \<open>reshape_model_outputs\<close>\<close>

text \<open>
  C1. For a flat list of length \<open>M\<close> and a batch size \<open>B \<ge> 1\<close> that divides \<open>M\<close>
  with \<open>M / B = k \<ge> 1\<close>, \<open>reshape_model_outputs\<close> returns \<open>B\<close> groups, each of
  length \<open>k\<close>; group \<open>i\<close> is the elements \<open>[i*k, (i+1)*k)\<close> of the input, and
  concatenating the groups in order gives back the flat list.
\<close>

theorem reshape_divisible_round_trip:
  assumes "1 \<le> B" and "B dvd int (length outputs)"
    and "1 \<le> int (length outputs) div B"
  shows "\<exists>groups. reshape_model_outputs outputs B = Inr groups
           \<and> int (length groups) = B
           \<and> (\<forall>g \<in> set groups. int (length g) = int (length outputs) div B)
           \<and> (\<forall>i < length groups.
                 groups ! i = take (nat (int (length outputs) div B))
                                (drop (i * nat (int (length outputs) div B)) outputs))
           \<and> concat groups = outputs"
  using assms by (intro reshape_divisible) simp_all

theorem reshape_divisible_round_trip_witness:
  "(1::int) \<le> 3
   \<and> 3 dvd int (length [''a1'', ''a2'', ''b1'', ''b2'', ''c1'', ''c2''])
   \<and> 1 \<le> int (length [''a1'', ''a2'', ''b1'', ''b2'', ''c1'', ''c2'']) div 3
   \<and> (\<exists>groups. reshape_model_outputs [''a1'', ''a2'', ''b1'', ''b2'', ''c1'', ''c2''] 3 = Inr groups
         \<and> int (length groups) = 3
         \<and> (\<forall>g \<in> set groups. int (length g) = 2)
         \<and> concat groups = [''a1'', ''a2'', ''b1'', ''b2'', ''c1'', ''c2''])"
proof -
  have h1: "(1::int) \<le> 3" by simp
  have h2: "3 dvd int (length [''a1'', ''a2'', ''b1'', ''b2'', ''c1'', ''c2''])" by simp
  have h3: "1 \<le> int (length [''a1'', ''a2'', ''b1'', ''b2'', ''c1'', ''c2'']) div 3" by simp
  from reshape_divisible_round_trip [OF h1 h2 h3]
  obtain groups where
    "reshape_model_outputs [''a1'', ''a2'', ''b1'', ''b2'', ''c1'', ''c2''] 3 = Inr groups"
    "int (length groups) = 3"
    "\<forall>g \<in> set groups. int (length g) = int (length [''a1'', ''a2'', ''b1'', ''b2'', ''c1'', ''c2'']) div 3"
    "concat groups = [''a1'', ''a2'', ''b1'', ''b2'', ''c1'', ''c2'']"
    by blast
  then show ?thesis by auto
qed

text \<open>
  C9. For a batch size \<open>B \<ge> 1\<close> and a flat list of length \<open>M\<close> with \<open>0 \<le> M < B\<close>
  (the empty list included), \<open>M // B\<close> is 0 and the call fails in \<open>range\<close>, with
  the zero-step \<open>ValueError\<close>, before either validation check is reached; it returns
  no grouped result.
\<close>

theorem reshape_fewer_outputs_than_inputs:
  assumes "1 \<le> B" and "int (length outputs) < B"
  shows "reshape_model_outputs outputs B = Inl (ValueError ''range() arg 3 must not be zero'')"
proof -
  have "int (length outputs) div B = 0"
    using assms by (simp add: div_pos_pos_trivial)
  with assms(1) show ?thesis by (intro reshape_zero_step) simp_all
qed

theorem reshape_fewer_outputs_than_inputs_witness:
  "(1::int) \<le> 2 \<and> int (length [''only'']) < 2
   \<and> reshape_model_outputs [''only''] 2 = Inl (ValueError ''range() arg 3 must not be zero'')"
proof -
  have h1: "(1::int) \<le> 2" by simp
  have h2: "int (length [''only'']) < 2" by simp
  show ?thesis using h1 h2 reshape_fewer_outputs_than_inputs [OF h1 h2] by simp
qed

text \<open>
  C10. Whenever \<open>reshape_model_outputs\<close> returns for a flat list of length \<open>M\<close> and a
  batch size \<open>B\<close>, every group of the result, not only the first, has length
  \<open>M // B\<close>, and \<open>M\<close> is an exact multiple of \<open>B\<close>.
\<close>

theorem reshape_success_groups_uniform:
  assumes ok: "reshape_model_outputs outputs B = Inr groups"
  shows "(\<forall>g \<in> set groups. int (length g) = int (length outputs) div B)
         \<and> B dvd int (length outputs)"
proof -
  from reshape_success_positive [OF ok]
  have B0: "0 < B" and k0: "0 < int (length outputs) div B" by simp_all
  have cnt: "(int (length outputs) - 1) div (int (length outputs) div B) + 1 = B"
    using reshape_positive_step [OF B0 k0] ok by (auto split: if_splits)
  have "int (length outputs) mod B = 0"
    using B0 k0 cnt by (rule chunk_count_exact)
  then have dvd: "B dvd int (length outputs)" by (simp add: dvd_eq_mod_eq_0)
  from reshape_divisible [OF B0 dvd k0] ok
  have "\<forall>g \<in> set groups. int (length g) = int (length outputs) div B" by auto
  with dvd show ?thesis by simp
qed

theorem reshape_success_groups_uniform_witness:
  "reshape_model_outputs [''a1'', ''a2'', ''b1'', ''b2''] 2 = Inr [[''a1'', ''a2''], [''b1'', ''b2'']]
   \<and> list_all (\<lambda>g. int (length g) = int (length [''a1'', ''a2'', ''b1'', ''b2'']) div 2)
         [[''a1'', ''a2''], [''b1'', ''b2'']]
   \<and> (2::int) dvd int (length [''a1'', ''a2'', ''b1'', ''b2''])"
proof -
  have ok: "reshape_model_outputs [''a1'', ''a2'', ''b1'', ''b2''] 2
              = Inr [[''a1'', ''a2''], [''b1'', ''b2'']]"
    by (simp add: reshape_model_outputs_def py_range_def range_length_def py_slice_def
          slice_bound_def upt_conv_Cons)
  show ?thesis using ok reshape_success_groups_uniform [OF ok] by simp
qed

text \<open>
  From \<open>M \<ge> B\<close> on, a batch size that does not divide \<open>M\<close> is reported by the
  count check: the chunks are one too many at least.
\<close>

lemma reshape_not_divisible_reported:
  assumes B: "0 < B" and M: "B \<le> int (length outputs)" and nd: "\<not> B dvd int (length outputs)"
  shows "reshape_model_outputs outputs B =
           Inl (count_mismatch ((int (length outputs) - 1) div (int (length outputs) div B) + 1) B)"
proof -
  have "B div B \<le> int (length outputs) div B" using M B by (rule zdiv_mono1)
  with B have k: "0 < int (length outputs) div B" by simp
  have "(int (length outputs) - 1) div (int (length outputs) div B) + 1 \<noteq> B"
  proof
    assume "(int (length outputs) - 1) div (int (length outputs) div B) + 1 = B"
    with B k have "int (length outputs) mod B = 0" by (rule chunk_count_exact)
    with nd show False by (simp add: dvd_eq_mod_eq_0)
  qed
  then show ?thesis using reshape_positive_step [OF B k] by simp
qed

text \<open>
  C2. For a batch size \<open>B \<ge> 1\<close> that does not divide the length \<open>M\<close> of the flat
  list, the claim is that the call fails with the validation error that reports the
  mismatch. With three outputs and a batch of four it does not: \<open>3 // 4\<close> is 0 and
  \<open>range(0, 3, 0)\<close> raises its own \<open>ValueError\<close>, which names neither count.
\<close>

theorem reshape_short_output_unreported:
  "reshape_model_outputs [''x1'', ''x2'', ''x3''] 4 = Inl (ValueError ''range() arg 3 must not be zero'')"
  by (simp add: reshape_model_outputs_def py_range_def)

section \<open>Properties of the configuration\<close>

text \<open>
  C3, as stated, fails: a configuration with \<open>top_p = 1.5\<close> is constructed, not
  rejected.
\<close>

theorem config_top_p_accepted:
  "InferenceArguments_init (Some ''gpt2'') [Top_p 1.5] = Inr ((field_defaults ''gpt2'')\<lparr>top_p := 1.5\<rparr>)"
  by (simp add: InferenceArguments_init_def)

text \<open>
  C3, amended. Construction checks nothing: with all defaults it succeeds, with batch
  size 8, one beam, one return sequence and \<open>top_p = 0.9\<close>; it succeeds as well, and
  stores the value given, with \<open>top_p = 1.5\<close>, with \<open>num_beams = 0\<close> and with any
  batch size, zero and the negatives included; and so for any keyword arguments.
\<close>

theorem config_construction_unchecked:
  "(\<exists>a. InferenceArguments_init (Some name) [] = Inr a
        \<and> batch_size a = 8 \<and> num_beams a = 1 \<and> num_return_sequences a = 1 \<and> top_p a = 0.9)
   \<and> (\<exists>a. InferenceArguments_init (Some name) [Top_p 1.5] = Inr a \<and> top_p a = 1.5)
   \<and> (\<exists>a. InferenceArguments_init (Some name) [Num_beams 0] = Inr a \<and> num_beams a = 0)
   \<and> (\<exists>a. InferenceArguments_init (Some name) [Batch_size b] = Inr a \<and> batch_size a = b)
   \<and> (\<exists>a. InferenceArguments_init (Some name) kwargs = Inr a)"
  by (simp add: InferenceArguments_init_def field_defaults_def)

section \<open>Properties of the float arithmetic\<close>

subsection \<open>The binade of a positive real\<close>

lemma bitlen_ge_1: "0 < n \<Longrightarrow> 1 \<le> bitlen n"
  by (auto simp: bitlen_alt_def)

lemma ilog2_bounds:
  assumes "0 < x"
  shows "2 powi ilog2 x \<le> x" and "x < 2 powi (ilog2 x + 1)"
proof -
  have "2 powi ilog2 x \<le> x \<and> x < 2 powi (ilog2 x + 1)"
  proof (cases "1 \<le> x")
    case True
    define n where "n = \<lfloor>x\<rfloor>"
    have n: "0 < n" using True by (simp add: n_def)
    from bitlen_bounds [OF n]
    have lo: "2 ^ nat (bitlen n - 1) \<le> n" and hi: "n < 2 ^ nat (bitlen n)" by simp_all
    have b1: "1 \<le> bitlen n" using n by (rule bitlen_ge_1)
    have k: "ilog2 x = bitlen n - 1" using True by (simp add: ilog2_def n_def)
    have "2 powi (bitlen n - 1) = real_of_int (2 ^ nat (bitlen n - 1))"
      using b1 by (simp add: power_int_nonneg_exp)
    also have "\<dots> \<le> real_of_int n" using lo by (simp only: of_int_le_iff)
    also have "\<dots> \<le> x" by (simp add: n_def)
    finally have L: "2 powi (bitlen n - 1) \<le> x" .
    have "x < real_of_int (n + 1)" by (simp add: n_def)
    also have "\<dots> \<le> real_of_int (2 ^ nat (bitlen n))"
      using hi by (simp only: of_int_le_iff)
    also have "\<dots> = 2 powi (bitlen n - 1 + 1)"
      using b1 by (simp add: power_int_nonneg_exp)
    finally have "x < 2 powi (bitlen n - 1 + 1)" .
    with L k show ?thesis by simp
  next
    case False
    define y where "y = 1 / x"
    have y1: "1 < y" using False assms by (simp add: y_def)
    define m where "m = \<lceil>y\<rceil> - 1"
    have m: "0 < m" using y1 by (simp add: m_def less_ceiling_iff)
    from bitlen_bounds [OF m]
    have lo: "2 ^ nat (bitlen m - 1) \<le> m" and hi: "m < 2 ^ nat (bitlen m)" by simp_all
    have b1: "1 \<le> bitlen m" using m by (rule bitlen_ge_1)
    have k: "ilog2 x = - bitlen m" using False by (simp add: ilog2_def m_def y_def)
    have my: "real_of_int m < y" by (simp add: m_def) linarith
    have ym: "y \<le> real_of_int (m + 1)" by (simp add: m_def)
    have x: "x = 1 / y" using assms by (simp add: y_def)
    have "y \<le> real_of_int (2 ^ nat (bitlen m))"
    proof -
      have "m + 1 \<le> 2 ^ nat (bitlen m)" using hi by simp
      then have "real_of_int (m + 1) \<le> real_of_int (2 ^ nat (bitlen m))"
        by (simp only: of_int_le_iff)
      with ym show ?thesis by linarith
    qed
    also have "\<dots> = 2 powi bitlen m" using b1 by (simp add: power_int_nonneg_exp)
    finally have "y \<le> 2 powi bitlen m" .
    then have "1 / 2 powi bitlen m \<le> 1 / y" using y1 by (intro divide_left_mono) simp_all
    then have L: "2 powi (- bitlen m) \<le> x" by (simp add: x power_int_minus_divide)
    have "2 powi (bitlen m - 1) = real_of_int (2 ^ nat (bitlen m - 1))"
      using b1 by (simp add: power_int_nonneg_exp)
    also have "\<dots> \<le> real_of_int m" using lo by (simp only: of_int_le_iff)
    also have "\<dots> < y" by (rule my)
    finally have "2 powi (bitlen m - 1) < y" .
    then have "1 / y < 1 / 2 powi (bitlen m - 1)"
      using y1 by (intro divide_strict_left_mono mult_pos_pos) simp_all
    then have "x < 2 powi (- (bitlen m - 1))" by (simp only: x power_int_minus_divide)
    then have "x < 2 powi (- bitlen m + 1)" by simp
    with L k show ?thesis by simp
  qed
  then show "2 powi ilog2 x \<le> x" and "x < 2 powi (ilog2 x + 1)" by simp_all
qed

lemma ilog2_unique:
  assumes "2 powi k \<le> x" and "x < 2 powi (k + 1)"
  shows "ilog2 x = k"
proof -
  have x: "0 < x" using assms(1) by (rule less_le_trans [rotated]) simp
  note b = ilog2_bounds [OF x]
  have "\<not> ilog2 x < k"
  proof
    assume "ilog2 x < k"
    then have "ilog2 x + 1 \<le> k" by simp
    then have "(2::real) powi (ilog2 x + 1) \<le> 2 powi k" by (intro power_int_increasing) simp_all
    with b(2) assms(1) show False by linarith
  qed
  moreover have "\<not> k < ilog2 x"
  proof
    assume "k < ilog2 x"
    then have "k + 1 \<le> ilog2 x" by simp
    then have "(2::real) powi (k + 1) \<le> 2 powi ilog2 x" by (intro power_int_increasing) simp_all
    with b(1) assms(2) show False by linarith
  qed
  ultimately show ?thesis by simp
qed

lemma round_half_even_ge_floor: "\<lfloor>z\<rfloor> \<le> round_half_even z"
  by (simp add: round_half_even_def Let_def)

lemma round_half_even_le_ceiling: "round_half_even z \<le> \<lceil>z\<rceil>"
proof (cases "z = of_int \<lfloor>z\<rfloor>")
  case True
  then have "z - of_int \<lfloor>z\<rfloor> = 0" by simp
  then have "round_half_even z = \<lfloor>z\<rfloor>" by (simp add: round_half_even_def Let_def)
  then show ?thesis by (simp add: floor_le_ceiling)
next
  case False
  then have "\<lceil>z\<rceil> = \<lfloor>z\<rfloor> + 1" by (simp add: ceiling_altdef)
  then show ?thesis by (simp add: round_half_even_def Let_def)
qed

lemma round_half_even_error: "\<bar>of_int (round_half_even z) - z\<bar> \<le> 1 / 2"
proof -
  define d where "d = z - of_int \<lfloor>z\<rfloor>"
  have d: "0 \<le> d" "d < 1" unfolding d_def by linarith+
  have z: "z = of_int \<lfloor>z\<rfloor> + d" by (simp add: d_def)
  consider "d < 1 / 2" | "1 / 2 < d" | "d = 1 / 2" by linarith
  then show ?thesis
  proof cases
    case 1
    then have "round_half_even z = \<lfloor>z\<rfloor>" by (simp add: round_half_even_def Let_def d_def)
    then show ?thesis using d 1 by (simp add: d_def)
  next
    case 2
    then have "round_half_even z = \<lfloor>z\<rfloor> + 1" by (simp add: round_half_even_def Let_def d_def)
    then show ?thesis using d 2 by (simp add: d_def)
  next
    case 3
    then have "round_half_even z = \<lfloor>z\<rfloor> \<or> round_half_even z = \<lfloor>z\<rfloor> + 1"
      by (simp add: round_half_even_def Let_def d_def)
    then show ?thesis using d 3 by (auto simp: d_def)
  qed
qed

lemma round_half_even_le: "z \<le> of_int n \<Longrightarrow> round_half_even z \<le> n"
  using round_half_even_le_ceiling [of z] by (meson ceiling_le order_trans)

lemma round_half_even_ge: "of_int n \<le> z \<Longrightarrow> n \<le> round_half_even z"
  using round_half_even_ge_floor [of z] by (meson le_floor_iff order_trans)

subsection \<open>Rounding is to a nearest double\<close>

lemma ulp_exponent_pos:
  "0 < y \<Longrightarrow> ulp_exponent y = max (ilog2 y - 52) (- 1074)"
  by (simp add: ulp_exponent_def)

lemma representable_cases:
  assumes d: "representable d" and y: "0 < y"
  shows "(\<exists>N. d = of_int N * 2 powi ulp_exponent y)
         \<or> (ulp_exponent y = ilog2 y - 52 \<and> d \<le> 2 powi ilog2 y)"
proof -
  from d obtain m k where dm: "d = of_int m * 2 powi k" and m: "\<bar>m\<bar> \<le> 2 ^ 53" and k: "- 1074 \<le> k"
    unfolding representable_def by blast
  define e where "e = ulp_exponent y"
  show ?thesis
  proof (cases "e \<le> k")
    case True
    have "(2::real) powi k = 2 powi (k - e) * 2 powi e"
      using power_int_add [of "2::real" "k - e" e] by simp
    also have "(2::real) powi (k - e) = of_int (2 ^ nat (k - e))"
      using True by (simp add: power_int_nonneg_exp)
    finally have "d = of_int (m * 2 ^ nat (k - e)) * 2 powi e"
      by (simp add: dm)
    then show ?thesis unfolding e_def by blast
  next
    case False
    then have ke: "k \<le> e - 1" by simp
    have "e \<noteq> - 1074" using False k by simp
    then have e: "e = ilog2 y - 52" using y by (simp add: e_def ulp_exponent_pos max_def split: if_splits)
    have "real_of_int m \<le> real_of_int (2 ^ 53)" using m by (simp only: of_int_le_iff)
    then have "d \<le> 2 ^ 53 * 2 powi k" by (simp add: dm mult_right_mono)
    also have "\<dots> \<le> 2 ^ 53 * 2 powi (e - 1)"
      using ke by (intro mult_left_mono power_int_increasing) simp_all
    also have "\<dots> = 2 powi 53 * 2 powi (e - 1)" by simp
    also have "\<dots> = 2 powi (53 + (e - 1))" by (rule power_int_add [symmetric]) simp
    also have "53 + (e - 1) = ilog2 y" by (simp add: e)
    finally have "d \<le> 2 powi ilog2 y" .
    with e show ?thesis unfolding e_def by blast
  qed
qed

lemma pow2_ilog2_grid:
  assumes "0 < y" and "ulp_exponent y = ilog2 y - 52"
  shows "(2::real) powi ilog2 y = of_int (2 ^ 52) * 2 powi ulp_exponent y"
proof -
  have "(2::real) powi ilog2 y = 2 powi (52 + (ilog2 y - 52))" by simp
  also have "\<dots> = 2 powi 52 * 2 powi (ilog2 y - 52)" by (rule power_int_add) simp
  finally show ?thesis by (simp add: assms(2))
qed

lemma grid_multiple:
  assumes d: "representable d" and y: "0 < y" and yd: "y \<le> d"
  shows "\<exists>N. d = of_int N * 2 powi ulp_exponent y"
proof -
  from representable_cases [OF d y] show ?thesis
  proof
    assume "\<exists>N. d = of_int N * 2 powi ulp_exponent y"
    then show ?thesis .
  next
    assume a: "ulp_exponent y = ilog2 y - 52 \<and> d \<le> 2 powi ilog2 y"
    with ilog2_bounds(1) [OF y] yd have "d = 2 powi ilog2 y" by linarith
    with pow2_ilog2_grid [OF y] a show ?thesis by blast
  qed
qed

lemma round_to_grid_upper:
  assumes d: "representable d" and y: "0 < y" and yd: "y \<le> d"
  shows "round_to_grid y \<le> d"
proof -
  define u where "u = (2::real) powi ulp_exponent y"
  have u: "0 < u" by (simp add: u_def)
  from grid_multiple [OF d y yd] obtain N where N: "d = of_int N * u" unfolding u_def by blast
  have "y / u \<le> of_int N" using yd u by (simp add: N pos_divide_le_eq)
  then have "round_half_even (y / u) \<le> N" by (rule round_half_even_le)
  then have "real_of_int (round_half_even (y / u)) \<le> real_of_int N" by (simp only: of_int_le_iff)
  then have "real_of_int (round_half_even (y / u)) * u \<le> real_of_int N * u"
    using u by (simp add: mult_right_mono)
  then show ?thesis by (simp add: round_to_grid_def Let_def N u_def)
qed

lemma round_to_grid_nonneg:
  assumes y: "0 < y"
  shows "0 \<le> round_to_grid y"
proof -
  define u where "u = (2::real) powi ulp_exponent y"
  have u: "0 < u" by (simp add: u_def)
  have "real_of_int 0 \<le> y / u" using y u by simp
  then have "0 \<le> round_half_even (y / u)" by (rule round_half_even_ge)
  then show ?thesis using u by (simp add: round_to_grid_def Let_def u_def)
qed

lemma round_to_grid_lower:
  assumes d: "representable d" and y: "0 < y" and dy: "d \<le> y"
  shows "d \<le> round_to_grid y"
proof -
  define u where "u = (2::real) powi ulp_exponent y"
  have u: "0 < u" by (simp add: u_def)
  have r: "round_to_grid y = real_of_int (round_half_even (y / u)) * u"
    by (simp add: round_to_grid_def Let_def u_def)
  from representable_cases [OF d y] show ?thesis
  proof
    assume "\<exists>N. d = of_int N * 2 powi ulp_exponent y"
    then obtain N where N: "d = of_int N * u" unfolding u_def by blast
    have "of_int N \<le> y / u" using dy u by (simp add: N pos_le_divide_eq)
    then have "N \<le> round_half_even (y / u)" by (rule round_half_even_ge)
    then have "real_of_int N \<le> real_of_int (round_half_even (y / u))" by (simp only: of_int_le_iff)
    then have "real_of_int N * u \<le> real_of_int (round_half_even (y / u)) * u"
      using u by (simp add: mult_right_mono)
    then show ?thesis by (simp add: r N)
  next
    assume a: "ulp_exponent y = ilog2 y - 52 \<and> d \<le> 2 powi ilog2 y"
    then have g: "2 powi ilog2 y = of_int (2 ^ 52) * u"
      using pow2_ilog2_grid [OF y] by (simp add: u_def)
    have "of_int (2 ^ 52) * u \<le> y" using ilog2_bounds(1) [OF y] g by simp
    then have "of_int (2 ^ 52) \<le> y / u" using u by (simp add: pos_le_divide_eq)
    then have "2 ^ 52 \<le> round_half_even (y / u)" by (rule round_half_even_ge)
    then have "real_of_int (2 ^ 52) \<le> real_of_int (round_half_even (y / u))"
      by (simp only: of_int_le_iff)
    then have "real_of_int (2 ^ 52) * u \<le> real_of_int (round_half_even (y / u)) * u"
      using u by (simp add: mult_right_mono)
    with g a show ?thesis by (simp add: r)
  qed
qed

lemma round_to_grid_representable:
  assumes y: "0 < y"
  shows "representable (round_to_grid y)"
proof -
  define e where "e = ulp_exponent y"
  define u where "u = (2::real) powi e"
  have u: "0 < u" by (simp add: u_def)
  have e1: "ilog2 y - 52 \<le> e" and e2: "- 1074 \<le> e"
    using y by (simp_all add: e_def ulp_exponent_pos)
  have "y < 2 powi (ilog2 y + 1)" by (rule ilog2_bounds(2) [OF y])
  also have "\<dots> \<le> 2 powi (53 + e)" using e1 by (intro power_int_increasing) simp_all
  also have "\<dots> = 2 powi 53 * 2 powi e" by (rule power_int_add) simp
  finally have "y / u \<le> real_of_int (2 ^ 53)" using u by (simp add: u_def pos_divide_le_eq)
  then have hi: "round_half_even (y / u) \<le> 2 ^ 53" by (rule round_half_even_le)
  have "real_of_int 0 \<le> y / u" using y u by simp
  then have lo: "0 \<le> round_half_even (y / u)" by (rule round_half_even_ge)
  have "round_to_grid y = of_int (round_half_even (y / u)) * 2 powi e"
    by (simp add: round_to_grid_def Let_def u_def e_def)
  moreover have "\<bar>round_half_even (y / u)\<bar> \<le> 2 ^ 53" using lo hi by simp
  ultimately show ?thesis using e2 unfolding representable_def by blast
qed

lemma round_to_grid_error:
  "\<bar>round_to_grid y - y\<bar> \<le> 2 powi ulp_exponent y / 2"
proof -
  define u where "u = (2::real) powi ulp_exponent y"
  have u: "0 < u" by (simp add: u_def)
  have "round_to_grid y - y = (of_int (round_half_even (y / u)) - y / u) * u"
    using u by (simp add: round_to_grid_def Let_def u_def algebra_simps)
  then have "\<bar>round_to_grid y - y\<bar> = \<bar>of_int (round_half_even (y / u)) - y / u\<bar> * u"
    using u by (simp add: abs_mult)
  also have "\<dots> \<le> 1 / 2 * u"
    using u round_half_even_error [of "y / u"] by (intro mult_right_mono) simp_all
  finally show ?thesis by (simp add: u_def)
qed

lemma representable_0: "representable 0"
  unfolding representable_def by (intro exI [of _ 0] exI [of _ "0::int"]) simp

lemma representable_int:
  assumes "\<bar>n\<bar> \<le> 2 ^ 53"
  shows "representable (of_int n)"
  unfolding representable_def using assms by (intro exI [of _ n] exI [of _ "0::int"]) simp

lemma round_double_Finite:
  assumes "0 < y" and "round_to_grid y < 2 powi 1024"
  shows "round_double y = Finite (round_to_grid y)"
  using assms round_to_grid_nonneg [OF assms(1)] by (simp add: round_double_def Let_def)

lemma round_double_FiniteD:
  assumes "round_double y = Finite r" and "0 \<le> y"
  shows "0 \<le> r \<and> r < 2 powi 1024 \<and> representable r \<and> (0 < y \<longrightarrow> r = round_to_grid y)"
proof (cases "y = 0")
  case True
  with assms show ?thesis by (simp add: round_double_def representable_0)
next
  case False
  with assms(2) have y: "0 < y" by simp
  from assms(1) False have "r = round_to_grid y" and "\<not> 2 powi 1024 \<le> \<bar>round_to_grid y\<bar>"
    by (auto simp: round_double_def Let_def split: if_splits)
  with round_to_grid_nonneg [OF y] round_to_grid_representable [OF y] show ?thesis by simp
qed

lemma round_double_below:
  assumes T: "representable T" and T2: "T < 2 powi 1024" and y: "0 \<le> y" and yT: "y \<le> T"
  shows "\<exists>p. round_double y = Finite p \<and> 0 \<le> p \<and> p \<le> T \<and> representable p"
proof (cases "y = 0")
  case True
  with y yT show ?thesis by (auto simp: round_double_def representable_0)
next
  case False
  with y have y0: "0 < y" by simp
  have le: "round_to_grid y \<le> T" using T y0 yT by (rule round_to_grid_upper)
  with T2 have "round_to_grid y < 2 powi 1024" by simp
  with y0 have "round_double y = Finite (round_to_grid y)" by (rule round_double_Finite)
  with le round_to_grid_nonneg [OF y0] round_to_grid_representable [OF y0] show ?thesis by blast
qed

subsection \<open>Evaluating a rounding\<close>

lemma representable_pow2: "- 1074 \<le> k \<Longrightarrow> representable (2 powi k)"
  unfolding representable_def by (intro exI [of _ 1] exI [of _ k]) simp

lemma round_double_eval:
  assumes lo: "2 powi k \<le> x" and hi: "x < 2 powi (k + 1)" and k1: "- 1022 \<le> k" and k2: "k \<le> 1022"
  shows "round_double x = Finite (of_int (round_half_even (x / 2 powi (k - 52))) * 2 powi (k - 52))"
proof -
  have x: "0 < x" using lo by (rule less_le_trans [rotated]) simp
  have i: "ilog2 x = k" using lo hi by (rule ilog2_unique)
  have e: "ulp_exponent x = k - 52" using x k1 by (simp add: ulp_exponent_pos i)
  have g: "round_to_grid x = of_int (round_half_even (x / 2 powi (k - 52))) * 2 powi (k - 52)"
    by (simp add: round_to_grid_def Let_def e)
  have "round_to_grid x \<le> 2 powi (k + 1)"
    using hi k1 by (intro round_to_grid_upper representable_pow2 x) simp_all
  also have "(2::real) powi (k + 1) \<le> 2 powi 1023" using k2 by (intro power_int_increasing) simp_all
  also have "(2::real) powi 1023 < 2 powi 1024" by (intro power_int_strict_increasing) simp_all
  finally have "round_to_grid x < 2 powi 1024" .
  with x have "round_double x = Finite (round_to_grid x)" by (rule round_double_Finite)
  with g show ?thesis by simp
qed

lemma py_float_06: "py_float 0.6 = Finite (5404319552844595 / 9007199254740992)"
  unfolding py_float_def
  by (subst round_double_eval [where k = "- 1"]) (simp_all add: round_half_even_def Let_def)

lemma py_float_08: "py_float 0.8 = Finite (3602879701896397 / 4503599627370496)"
  unfolding py_float_def
  by (subst round_double_eval [where k = "- 1"]) (simp_all add: round_half_even_def Let_def)

lemma py_float_012: "py_float 0.12 = Finite (8646911284551352 / 72057594037927936)"
  unfolding py_float_def
  by (subst round_double_eval [where k = "- 4"]) (simp_all add: round_half_even_def Let_def)

lemma py_float_1: "py_float 1 = Finite 1"
  unfolding py_float_def
  by (subst round_double_eval [where k = 0]) (simp_all add: round_half_even_def Let_def)

lemma round_double_tie_to_even:
  "round_double (10 * (3152519739159347 / 4503599627370496)) = Finite 7"
  by (subst round_double_eval [where k = 2]) (simp_all add: round_half_even_def Let_def)

lemma representable_unit_grid:
  assumes d: "representable d" and d1: "1 \<le> d" and d2: "d < 2"
  shows "\<exists>N. d = real_of_int N / 2 ^ 52"
proof -
  from d obtain m k where dm: "d = of_int m * 2 powi k" and m: "\<bar>m\<bar> \<le> 2 ^ 53" and k: "- 1074 \<le> k"
    unfolding representable_def by blast
  show ?thesis
  proof (cases "- 52 \<le> k")
    case True
    have "(2::real) powi k = 2 powi (k + 52) * 2 powi (- 52)"
      using power_int_add [of "2::real" "k + 52" "- 52"] by simp
    also have "(2::real) powi (k + 52) = of_int (2 ^ nat (k + 52))"
      using True by (simp add: power_int_nonneg_exp)
    finally have "d = real_of_int (m * 2 ^ nat (k + 52)) / 2 ^ 52"
      by (simp add: dm power_int_minus_divide)
    then show ?thesis by blast
  next
    case False
    then have "k \<le> - 53" by simp
    have "real_of_int m \<le> real_of_int (2 ^ 53)" using m by (simp only: of_int_le_iff)
    then have "d \<le> 2 ^ 53 * 2 powi k" by (simp add: dm mult_right_mono)
    also have "\<dots> \<le> 2 ^ 53 * 2 powi (- 53)"
      using \<open>k \<le> - 53\<close> by (intro mult_left_mono power_int_increasing) simp_all
    also have "\<dots> = 1" by (simp add: power_int_minus_divide)
    finally have "d = 1" using d1 by simp
    then have "d = real_of_int (2 ^ 52) / 2 ^ 52" by simp
    then show ?thesis by blast
  qed
qed

subsection \<open>The share of the first device, in doubles\<close>

lemma first_device_share:
  assumes rp: "representable p" and p0: "0 \<le> p"
    and q: "round_double (p * (5404319552844595 / 9007199254740992)) = Finite q"
  shows "\<lfloor>q\<rfloor> \<le> \<lfloor>p\<rfloor> \<and> (\<lfloor>q\<rfloor> < \<lfloor>p\<rfloor> \<longleftrightarrow> (1 \<le> p \<and> p < 5 / 3) \<or> 2 \<le> p)"
proof (cases "p < 1")
  case True
  have "0 \<le> p * (5404319552844595 / 9007199254740992)" using p0 by simp
  from round_double_FiniteD [OF q this] have q0: "0 \<le> q"
    and qg: "0 < p * (5404319552844595 / 9007199254740992)
             \<longrightarrow> q = round_to_grid (p * (5404319552844595 / 9007199254740992))" by simp_all
  have "q \<le> p"
  proof (cases "p = 0")
    case True
    with q show ?thesis by (simp add: round_double_def)
  next
    case False
    with p0 have y: "0 < p * (5404319552844595 / 9007199254740992)" by simp
    have "round_to_grid (p * (5404319552844595 / 9007199254740992)) \<le> p"
      using rp y by (rule round_to_grid_upper) (use p0 in simp)
    with qg y show ?thesis by simp
  qed
  with True q0 p0 have "\<lfloor>q\<rfloor> = 0" "\<lfloor>p\<rfloor> = 0" by (simp_all add: floor_eq_iff)
  with True show ?thesis by simp
next
  case False
  then have p1: "1 \<le> p" by simp
  define y where "y = p * (5404319552844595 / 9007199254740992)"
  have y0: "0 < y" using p1 by (simp add: y_def)
  have yp: "y \<le> p" using p1 by (simp add: y_def)
  from round_double_FiniteD [OF q [folded y_def]] y0
  have qg: "q = round_to_grid y" by simp
  have qp: "q \<le> p" unfolding qg using rp y0 yp by (rule round_to_grid_upper)
  consider "p < 5 / 3" | "5 / 3 \<le> p" "p < 2" | "2 \<le> p" by linarith
  then show ?thesis
  proof cases
    case 1
    then have p2: "p < 2" by simp
    from representable_unit_grid [OF rp p1 p2] obtain N where N: "p = real_of_int N / 2 ^ 52" by blast
    have "real_of_int (3 * N) < real_of_int (5 * 2 ^ 52)" using 1 by (simp add: N field_simps)
    then have "3 * N < 5 * 2 ^ 52" by (simp only: of_int_less_iff)
    then have "N \<le> 7505999378950826" by simp
    then have "real_of_int N \<le> 7505999378950826" by simp
    then have pm: "p \<le> 7505999378950826 / 2 ^ 52" by (simp add: N divide_right_mono)
    have ylo: "2 powi (- 1) \<le> y" using p1 by (simp add: y_def)
    have yhi: "y < 1" using pm by (simp add: y_def)
    have "ilog2 y = - 1" using ylo yhi by (intro ilog2_unique) simp_all
    then have "ulp_exponent y = - 53" using y0 by (simp add: ulp_exponent_pos)
    with round_to_grid_error [of y] have "\<bar>q - y\<bar> \<le> 2 powi (- 53) / 2" by (simp add: qg)
    then have "q \<le> y + 2 powi (- 53) / 2" by linarith
    also have "\<dots> < 1" using pm by (simp add: y_def)
    finally have "q < 1" .
    moreover have "0 \<le> q" unfolding qg using y0 by (rule round_to_grid_nonneg)
    ultimately have "\<lfloor>q\<rfloor> = 0" by (simp add: floor_eq_iff)
    moreover have "\<lfloor>p\<rfloor> = 1" using p1 p2 by (simp add: floor_eq_iff)
    ultimately show ?thesis using p1 1 by simp
  next
    case 2
    from representable_unit_grid [OF rp p1 2(2)] obtain N where N: "p = real_of_int N / 2 ^ 52" by blast
    have "real_of_int (5 * 2 ^ 52) \<le> real_of_int (3 * N)" using 2(1) by (simp add: N field_simps)
    then have "5 * 2 ^ 52 \<le> 3 * N" by (simp only: of_int_le_iff)
    then have "7505999378950827 \<le> N" by simp
    then have "7505999378950827 \<le> real_of_int N" by simp
    then have pm: "7505999378950827 / 2 ^ 52 \<le> p" by (simp add: N divide_right_mono)
    have "1 \<le> y" using pm by (simp add: y_def)
    then have "1 \<le> round_to_grid y"
      using representable_int [of 1] y0 round_to_grid_lower [of 1 y] by simp
    then have "1 \<le> q" by (simp add: qg)
    with qp 2(2) have "\<lfloor>q\<rfloor> = 1" by (simp add: floor_eq_iff)
    moreover have "\<lfloor>p\<rfloor> = 1" using p1 2(2) by (simp add: floor_eq_iff)
    ultimately show ?thesis using 2 by simp
  next
    case 3
    have y1: "1 \<le> y" using 3 by (simp add: y_def)
    have k0: "0 \<le> ilog2 y"
    proof (rule ccontr)
      assume "\<not> 0 \<le> ilog2 y"
      then have "ilog2 y + 1 \<le> 0" by simp
      then have "(2::real) powi (ilog2 y + 1) \<le> 2 powi 0" by (intro power_int_increasing) simp_all
      with ilog2_bounds(2) [OF y0] y1 show False by simp
    qed
    then have e: "ulp_exponent y = ilog2 y - 52" using y0 by (simp add: ulp_exponent_pos)
    have "(2::real) powi (ilog2 y - 52) = 2 powi ilog2 y * 2 powi (- 52)"
      using power_int_add [of "2::real" "ilog2 y" "- 52"] by simp
    also have "\<dots> \<le> y * 2 powi (- 52)"
      using ilog2_bounds(1) [OF y0] by (intro mult_right_mono) simp_all
    finally have u: "2 powi ulp_exponent y \<le> y * 2 powi (- 52)" by (simp add: e)
    from round_to_grid_error [of y] have "q \<le> y + 2 powi ulp_exponent y / 2"
      unfolding qg by linarith
    also have "\<dots> \<le> y + y * 2 powi (- 52) / 2" using u by simp
    also have "\<dots> \<le> p * (61 / 100)" using 3 by (simp add: y_def)
    finally have q61: "q \<le> p * (61 / 100)" .
    define n where "n = \<lfloor>p\<rfloor>"
    have n2: "2 \<le> n" using 3 by (simp add: n_def le_floor_iff)
    have pn: "p < real_of_int n + 1" by (simp add: n_def)
    have "real_of_int 2 \<le> real_of_int n" using n2 by (simp only: of_int_le_iff)
    then have "(real_of_int n + 1) * (61 / 100) \<le> real_of_int n" by simp
    moreover have "p * (61 / 100) < (real_of_int n + 1) * (61 / 100)" using pn by simp
    ultimately have "q < real_of_int n" using q61 by linarith
    then have "\<lfloor>q\<rfloor> < n" by (simp add: floor_less_iff)
    then show ?thesis using 3 by (simp add: n_def)
  qed
qed

subsection \<open>A double is its own float\<close>

lemma round_half_even_minus: "round_half_even (- z) = - round_half_even z"
proof (cases "z = of_int \<lfloor>z\<rfloor>")
  case True
  then obtain n :: int where z: "z = of_int n" by blast
  have "round_half_even (of_int n) = n" for n :: int
    by (simp add: round_half_even_def Let_def)
  from this [of n] this [of "- n"] show ?thesis by (simp add: z)
next
  case False
  define n where "n = \<lfloor>z\<rfloor>"
  define d where "d = z - of_int n"
  have d: "0 < d" "d < 1" using False unfolding d_def n_def by linarith+
  have fm: "\<lfloor>- z\<rfloor> = - n - 1" using d by (simp add: d_def floor_eq_iff) 
  have dm: "- z - of_int (- n - 1) = 1 - d" by (simp add: d_def)
  have a: "round_half_even z =
      (if d < 1 / 2 then n else if 1 / 2 < d then n + 1 else if even n then n else n + 1)"
    unfolding round_half_even_def Let_def d_def n_def by (rule refl)
  have b: "round_half_even (- z) =
      (if 1 - d < 1 / 2 then - n - 1 else if 1 / 2 < 1 - d then - n - 1 + 1
       else if even (- n - 1) then - n - 1 else - n - 1 + 1)"
    unfolding round_half_even_def Let_def fm dm by (rule refl)
  consider "d < 1 / 2" | "1 / 2 < d" | "d = 1 / 2" by linarith
  then show ?thesis
  proof cases
    case 1 then show ?thesis by (simp add: a b)
  next
    case 2 then show ?thesis by (simp add: a b)
  next
    case 3 then show ?thesis by (simp add: a b)
  qed
qed

lemma round_to_grid_minus: "round_to_grid (- x) = - round_to_grid x"
  by (simp add: round_to_grid_def Let_def ulp_exponent_def round_half_even_minus)

lemma representable_minus: "representable (- d) \<longleftrightarrow> representable d"
proof -
  have "representable (- d)" if "representable d" for d
  proof -
    from that obtain m k where "d = of_int m * 2 powi k" "\<bar>m\<bar> \<le> 2 ^ 53" "- 1074 \<le> k"
      unfolding representable_def by blast
    then have "- d = of_int (- m) * 2 powi k \<and> \<bar>- m\<bar> \<le> 2 ^ 53 \<and> - 1074 \<le> k" by simp
    then show ?thesis unfolding representable_def by blast
  qed
  from this [of d] this [of "- d"] show ?thesis by auto
qed

lemma round_to_grid_representable_pos:
  assumes "representable d" and "0 < d"
  shows "round_to_grid d = d"
  using round_to_grid_upper [OF assms(1) assms(2)] round_to_grid_lower [OF assms(1) assms(2)]
  by simp

lemma py_float_of_double:
  assumes d: "representable d" and m: "\<bar>d\<bar> < 2 powi 1024"
  shows "py_float d = Finite d"
proof -
  consider "d = 0" | "0 < d" | "d < 0" by linarith
  then show ?thesis
  proof cases
    case 1
    then show ?thesis by (simp add: py_float_def round_double_def)
  next
    case 2
    with d have "round_to_grid d = d" by (intro round_to_grid_representable_pos)
    with 2 m show ?thesis by (simp add: py_float_def round_double_def Let_def)
  next
    case 3
    then have "0 < - d" by simp
    moreover have "representable (- d)" using d by (simp add: representable_minus)
    ultimately have "round_to_grid (- d) = - d" by (rule round_to_grid_representable_pos [rotated])
    then have "round_to_grid d = d" by (simp add: round_to_grid_minus)
    with 3 m show ?thesis by (simp add: py_float_def round_double_def Let_def)
  qed
qed

subsection \<open>Some roundings, evaluated\<close>

lemma int_truediv_40: "int_truediv 42949672960 (1024 * 1024 * 1024) = Inr (Finite 40)"
  unfolding int_truediv_def
  by (subst round_double_eval [where k = 5]) (simp_all add: round_half_even_def Let_def)

lemma int_truediv_16: "int_truediv 17179869184 (1024 * 1024 * 1024) = Inr (Finite 16)"
  unfolding int_truediv_def
  by (subst round_double_eval [where k = 4]) (simp_all add: round_half_even_def Let_def)

lemma int_truediv_50: "int_truediv 53687091200 (1024 * 1024 * 1024) = Inr (Finite 50)"
  unfolding int_truediv_def
  by (subst round_double_eval [where k = 5]) (simp_all add: round_half_even_def Let_def)

lemma py_float_058: "py_float 0.58 = Finite (5224175567749775 / 9007199254740992)"
  unfolding py_float_def
  by (subst round_double_eval [where k = "- 1"]) (simp_all add: round_half_even_def Let_def)

lemma fmul_40_08: "fmul (Finite 40) (Finite (3602879701896397 / 4503599627370496)) = Finite 32"
  unfolding fmul.simps
  by (subst round_double_eval [where k = 5]) (simp_all add: round_half_even_def Let_def)


lemma fmul_16_012:
  "fmul (Finite 16) (Finite (8646911284551352 / 72057594037927936))
     = Finite (1080863910568919 / 562949953421312)"
  unfolding fmul.simps
  by (subst round_double_eval [where k = 0]) (simp_all add: round_half_even_def Let_def)

lemma fmul_192_06:
  "fmul (Finite (1080863910568919 / 562949953421312)) (py_float 0.6)
     = Finite (5188146770730811 / 4503599627370496)"
  unfolding py_float_06 fmul.simps
  by (subst round_double_eval [where k = 0]) (simp_all add: round_half_even_def Let_def)

lemma fmul_50_058:
  "fmul (Finite 50) (Finite (5224175567749775 / 9007199254740992))
     = Finite (8162774324609023 / 281474976710656)"
  unfolding fmul.simps
  by (subst round_double_eval [where k = 4]) (simp_all add: round_half_even_def Let_def)

lemma fmul_29_06:
  "fmul (Finite (8162774324609023 / 281474976710656)) (py_float 0.6)
     = Finite (2448832297382707 / 140737488355328)"
  unfolding py_float_06 fmul.simps
  by (subst round_double_eval [where k = 4]) (simp_all add: round_half_even_def Let_def)

lemma int_truediv_14: 
  "int_truediv 15612148445 (1024 * 1024 * 1024) = Inr (Finite (15612148445 / 1073741824))"
  unfolding int_truediv_def
  by (subst round_double_eval [where k = 3]) (simp_all add: round_half_even_def Let_def)

lemma py_float_013755209:
  "py_float 0.13755209 = Finite (4955836330144263 / 36028797018963968)"
  unfolding py_float_def
  by (subst round_double_eval [where k = "- 3"]) (simp_all add: round_half_even_def Let_def)

lemma fmul_14_013755209:
  "fmul (Finite (15612148445 / 1073741824)) (Finite (4955836330144263 / 36028797018963968))
     = Finite (9007199254740991 / 4503599627370496)"
  unfolding fmul.simps
  by (subst round_double_eval [where k = 0]) (simp_all add: round_half_even_def Let_def)

lemma fmul_199_06:
  "fmul (Finite (9007199254740991 / 4503599627370496)) (py_float 0.6)
     = Finite (2702159776422297 / 2251799813685248)"
  unfolding py_float_06 fmul.simps
  by (subst round_double_eval [where k = 0]) (simp_all add: round_half_even_def Let_def)

lemma str_int_small:
  "str_int 1 = ''1''" "str_int 17 = ''17''" "str_int 19 = ''19''" "str_int 28 = ''28''"
  "str_int 32 = ''32''"
  by (simp_all add: str_int_def str_nat.simps digit_char_def)

section \<open>Properties of the planner\<close>

subsection \<open>Decimal rendering is injective\<close>

lemma digit_char_inj:
  assumes "a < 10" and "b < 10" and "digit_char a = digit_char b"
  shows "a = b"
proof -
  have d: "distinct ''0123456789''" by simp
  have "length ''0123456789'' = 10" by simp
  with assms d show ?thesis
    unfolding digit_char_def by (metis nth_eq_iff_index_eq)
qed

lemma digit_char_not_minus: "d < 10 \<Longrightarrow> digit_char d \<noteq> CHR ''-''"
proof -
  assume "d < 10"
  then have "digit_char d \<in> set ''0123456789''"
    unfolding digit_char_def by (intro nth_mem) simp
  then show ?thesis by auto
qed

lemma str_nat_not_Nil: "str_nat n \<noteq> []"
  by (subst str_nat.simps) simp

lemma str_nat_no_minus: "CHR ''-'' \<notin> set (str_nat n)"
proof (induction n rule: str_nat.induct)
  case (1 n)
  show ?case
  proof (cases "n < 10")
    case True
    then show ?thesis
      using digit_char_not_minus [of n] by (subst str_nat.simps) auto
  next
    case False
    have "n mod 10 < 10" by simp
    then have "digit_char (n mod 10) \<noteq> CHR ''-''" by (rule digit_char_not_minus)
    with False 1 show ?thesis by (subst str_nat.simps) auto
  qed
qed

lemma str_nat_inj: "str_nat n = str_nat m \<Longrightarrow> n = m"
proof (induction n arbitrary: m rule: str_nat.induct)
  case (1 n)
  show ?case
  proof (cases "n < 10")
    case n: True
    show ?thesis
    proof (cases "m < 10")
      case True
      with n 1(2) have "digit_char n = digit_char m"
        by (simp add: str_nat.simps [of n] str_nat.simps [of m])
      with n True show ?thesis by (rule digit_char_inj)
    next
      case False
      with n 1(2) have "[digit_char n] = str_nat (m div 10) @ [digit_char (m mod 10)]"
        by (simp add: str_nat.simps [of n] str_nat.simps [of m])
      then have "str_nat (m div 10) = []" by simp
      then show ?thesis by (simp add: str_nat_not_Nil)
    qed
  next
    case n: False
    show ?thesis
    proof (cases "m < 10")
      case True
      with n 1(2) have "str_nat (n div 10) @ [digit_char (n mod 10)] = [digit_char m]"
        by (simp add: str_nat.simps [of n] str_nat.simps [of m])
      then have "str_nat (n div 10) = []" by simp
      then show ?thesis by (simp add: str_nat_not_Nil)
    next
      case False
      with n 1(2) have eq: "str_nat (n div 10) @ [digit_char (n mod 10)]
                          = str_nat (m div 10) @ [digit_char (m mod 10)]"
        by (simp add: str_nat.simps [of n] str_nat.simps [of m])
      then have a: "str_nat (n div 10) = str_nat (m div 10)"
        and b: "digit_char (n mod 10) = digit_char (m mod 10)" by simp_all
      from 1(1) [OF n a] have d: "n div 10 = m div 10" .
      have "n mod 10 = m mod 10" by (rule digit_char_inj [OF _ _ b]) simp_all
      with d show ?thesis by (metis div_mult_mod_eq)
    qed
  qed
qed

lemma str_int_inj: "str_int a = str_int b \<Longrightarrow> a = b"
proof -
  assume eq: "str_int a = str_int b"
  have hd_nat: "hd (str_nat n) \<noteq> CHR ''-''" for n
    using str_nat_no_minus [of n] str_nat_not_Nil [of n] by (cases "str_nat n") auto
  show "a = b"
  proof (cases "a < 0"; cases "b < 0")
    assume "a < 0" "b < 0"
    with eq have "str_nat (nat (- a)) = str_nat (nat (- b))" by (simp add: str_int_def)
    then have "nat (- a) = nat (- b)" by (rule str_nat_inj)
    with \<open>a < 0\<close> \<open>b < 0\<close> show ?thesis by simp
  next
    assume "a < 0" "\<not> b < 0"
    with eq have "CHR ''-'' # str_nat (nat (- a)) = str_nat (nat b)" by (simp add: str_int_def)
    then have "hd (str_nat (nat b)) = CHR ''-''" by (metis list.sel(1))
    with hd_nat show ?thesis by simp
  next
    assume "\<not> a < 0" "b < 0"
    with eq have "str_nat (nat a) = CHR ''-'' # str_nat (nat (- b))" by (simp add: str_int_def)
    then have "hd (str_nat (nat a)) = CHR ''-''" by (metis list.sel(1))
    with hd_nat show ?thesis by simp
  next
    assume "\<not> a < 0" "\<not> b < 0"
    with eq have "str_nat (nat a) = str_nat (nat b)" by (simp add: str_int_def)
    then have "nat a = nat b" by (rule str_nat_inj)
    with \<open>\<not> a < 0\<close> \<open>\<not> b < 0\<close> show ?thesis by simp
  qed
qed

lemma GiB_inj: "str_int a @ ''GiB'' = str_int b @ ''GiB'' \<longleftrightarrow> a = b"
  using str_int_inj by auto

subsection \<open>The plan, key by key\<close>

lemma map_of_device_comprehension:
  "map_of (map (\<lambda>i. (Gpu i, f i)) [0..<n]) (Gpu i) = (if i < n then Some (f i) else None)"
  by (induction n) (auto simp: map_of_append map_add_def less_Suc_eq split: option.splits)

lemma map_of_device_comprehension_Cpu:
  "map_of (map (\<lambda>i. (Gpu i, f i)) [0..<n]) Cpu = None"
  by (induction n) (auto simp: map_of_append)

lemma comprehension_total:
  assumes "\<And>x. x \<in> set xs \<Longrightarrow> g x = Inr (h x)"
  shows "comprehension g xs = Inr (map h xs)"
  using assms by (induction xs) simp_all

lemma set_max_memory_skips:
  assumes "py_float (max_memory args) = Finite 0 \<or> py_float (max_memory args) = Finite 1
           \<or> device_count env \<le> 1"
  shows "set_max_memory args env = Inr None"
  using assms by (auto simp: set_max_memory_def Let_def)

lemma set_max_memory_plan:
  assumes N: "1 < device_count env"
    and f: "py_float (max_memory args) = Finite f" and f0: "f \<noteq> 0" and f1: "f \<noteq> 1"
    and t: "int_truediv (int (total_memory env)) (1024 * 1024 * 1024) = Inr (Finite T)"
    and p: "fmul (Finite T) (Finite f) = Finite p"
    and q: "fmul (Finite p) (py_float 0.6) = Finite q"
  shows "set_max_memory args env =
           Inr (Some ((map_of (map (\<lambda>i. (Gpu i, str_int (if 0 < i then \<lfloor>p\<rfloor> else \<lfloor>q\<rfloor>) @ ''GiB''))
                                   [0..<device_count env]))
                      (Cpu \<mapsto> ''400GiB'')))"
proof -
  have c: "comprehension
             (\<lambda>i. case (if i > 0 then math_floor (fmul (Finite T) (Finite f))
                        else math_floor (fmul (fmul (Finite T) (Finite f)) (py_float 0.6))) of
                    Inl e \<Rightarrow> Inl e
                  | Inr b \<Rightarrow> Inr (Gpu i, str_int b @ ''GiB''))
             [0..<device_count env]
           = Inr (map (\<lambda>i. (Gpu i, str_int (if 0 < i then \<lfloor>p\<rfloor> else \<lfloor>q\<rfloor>) @ ''GiB''))
                      [0..<device_count env])"
  proof (rule comprehension_total)
    fix i
    show "(case (if i > 0 then math_floor (fmul (Finite T) (Finite f))
                else math_floor (fmul (fmul (Finite T) (Finite f)) (py_float 0.6))) of
             Inl e \<Rightarrow> Inl e
           | Inr b \<Rightarrow> Inr (Gpu i, str_int b @ ''GiB''))
          = Inr (Gpu i, str_int (if 0 < i then \<lfloor>p\<rfloor> else \<lfloor>q\<rfloor>) @ ''GiB'')"
    proof (cases "0 < i")
      case True
      then show ?thesis by (simp only: p math_floor.simps sum.case if_True)
    next
      case False
      then show ?thesis by (simp only: p q math_floor.simps sum.case if_False)
    qed
  qed
  show ?thesis
    unfolding set_max_memory_def Let_def f t sum.case c
    using N f0 f1 by simp
qed

lemma budget_of_plan:
  "budget_of (Inr (Some ((map_of (map (\<lambda>i. (Gpu i, g i)) [0..<n]))(Cpu \<mapsto> c)))) (Gpu i)
     = (if i < n then Some (g i) else None)"
  "budget_of (Inr (Some ((map_of (map (\<lambda>i. (Gpu i, g i)) [0..<n]))(Cpu \<mapsto> c)))) Cpu = Some c"
  by (simp_all add: budget_of_def map_of_device_comprehension)

lemma int_truediv_nonneg:
  assumes "int_truediv a b = Inr (Finite T)" and "0 \<le> a" and "0 < b"
  shows "0 \<le> T \<and> T < 2 powi 1024 \<and> representable T"
proof -
  from assms(1,3) have "round_double (real_of_int a / real_of_int b) = Finite T"
    by (auto simp: int_truediv_def split: pyfloat.splits)
  moreover have "0 \<le> real_of_int a / real_of_int b" using assms(2,3) by simp
  ultimately show ?thesis using round_double_FiniteD by blast
qed

lemma planner_products:
  assumes t: "int_truediv (int n) (1024 * 1024 * 1024) = Inr (Finite T)"
    and f0: "0 < f" and f1: "f < 1"
  shows "\<exists>p q. fmul (Finite T) (Finite f) = Finite p
           \<and> fmul (Finite p) (py_float 0.6) = Finite q
           \<and> 0 \<le> q \<and> q \<le> p \<and> p \<le> T \<and> representable p"
proof -
  from int_truediv_nonneg [OF t]
  have T: "0 \<le> T" "T < 2 powi 1024" "representable T" by simp_all
  have "0 \<le> T * f" "T * f \<le> T"
    using T(1) f0 f1 by (simp_all add: mult_left_le)
  from round_double_below [OF T(3) T(2) this]
  obtain p where p: "round_double (T * f) = Finite p" "0 \<le> p" "p \<le> T" "representable p" by blast
  have p2: "p < 2 powi 1024" using p(3) T(2) by simp
  have "0 \<le> p * (5404319552844595 / 9007199254740992)"
    "p * (5404319552844595 / 9007199254740992) \<le> p"
    using p(2) by simp_all
  from round_double_below [OF p(4) p2 this]
  obtain q where q: "round_double (p * (5404319552844595 / 9007199254740992)) = Finite q"
    "0 \<le> q" "q \<le> p" by blast
  have "fmul (Finite T) (Finite f) = Finite p" by (simp only: fmul.simps p(1))
  moreover have "fmul (Finite p) (py_float 0.6) = Finite q"
    by (simp only: py_float_06 fmul.simps q(1))
  ultimately show ?thesis using p(2-4) q(2,3) by blast
qed

lemma planned_budgets:
  assumes N: "1 < device_count env"
    and f: "py_float (max_memory args) = Finite f" and f0: "f \<noteq> 0" and f1: "f \<noteq> 1"
    and t: "int_truediv (int (total_memory env)) (1024 * 1024 * 1024) = Inr (Finite T)"
    and p: "fmul (Finite T) (Finite f) = Finite p"
    and q: "fmul (Finite p) (py_float 0.6) = Finite q"
  shows "budget_of (set_max_memory args env) (Gpu i)
           = (if i < device_count env
              then Some (str_int (if 0 < i then \<lfloor>p\<rfloor> else \<lfloor>q\<rfloor>) @ ''GiB'') else None)"
    and "budget_of (set_max_memory args env) Cpu = Some ''400GiB''"
  unfolding set_max_memory_plan [OF N f f0 f1 t p q] by (rule budget_of_plan)+

text \<open>
  The products are rounded. With 50 GiB and \<open>max_memory = 0.58\<close> the float product is
  28.999999999999996, so the other devices get 28 GiB, not 29; device 0 gets 17 GiB.
\<close>

lemma set_max_memory_rounds_the_product:
  "budget_of (set_max_memory ((field_defaults ''gpt2'')\<lparr>max_memory := 0.58\<rparr>)
                \<lparr>device_count = 2, total_memory = 53687091200\<rparr>) (Gpu 1) = Some ''28GiB''"
  "budget_of (set_max_memory ((field_defaults ''gpt2'')\<lparr>max_memory := 0.58\<rparr>)
                \<lparr>device_count = 2, total_memory = 53687091200\<rparr>) (Gpu 0) = Some ''17GiB''"
proof -
  let ?env = "\<lparr>device_count = 2, total_memory = 53687091200\<rparr>"
  let ?args = "(field_defaults ''gpt2'')\<lparr>max_memory := 0.58\<rparr>"
  have N: "1 < device_count ?env" by simp
  have f: "py_float (max_memory ?args) = Finite (5224175567749775 / 9007199254740992)"
    using py_float_058 by simp
  have t: "int_truediv (int (total_memory ?env)) (1024 * 1024 * 1024) = Inr (Finite 50)"
    using int_truediv_50 by simp
  note b = planned_budgets(1) [OF N f _ _ t fmul_50_058 fmul_29_06]
  show "budget_of (set_max_memory ?args ?env) (Gpu 1) = Some ''28GiB''"
    by (subst b) (simp_all add: str_int_small)
  show "budget_of (set_max_memory ?args ?env) (Gpu 0) = Some ''17GiB''"
    by (subst b) (simp_all add: str_int_small)
qed

text \<open>
  With 15612148445 bytes and \<open>max_memory = 0.13755209\<close> the exact product is above 2
  and the float product is 1.9999999999999998: every device gets 1 GiB.
\<close>

lemma set_max_memory_product_just_below_two:
  "budget_of (set_max_memory ((field_defaults ''gpt2'')\<lparr>max_memory := 0.13755209\<rparr>)
                \<lparr>device_count = 2, total_memory = 15612148445\<rparr>) (Gpu 1) = Some ''1GiB''"
  "budget_of (set_max_memory ((field_defaults ''gpt2'')\<lparr>max_memory := 0.13755209\<rparr>)
                \<lparr>device_count = 2, total_memory = 15612148445\<rparr>) (Gpu 0) = Some ''1GiB''"
proof -
  let ?env = "\<lparr>device_count = 2, total_memory = 15612148445\<rparr>"
  let ?args = "(field_defaults ''gpt2'')\<lparr>max_memory := 0.13755209\<rparr>"
  have N: "1 < device_count ?env" by simp
  have f: "py_float (max_memory ?args) = Finite (4955836330144263 / 36028797018963968)"
    using py_float_013755209 by simp
  have t: "int_truediv (int (total_memory ?env)) (1024 * 1024 * 1024)
             = Inr (Finite (15612148445 / 1073741824))"
    using int_truediv_14 by simp
  note b = planned_budgets(1) [OF N f _ _ t fmul_14_013755209 fmul_199_06]
  show "budget_of (set_max_memory ?args ?env) (Gpu 1) = Some ''1GiB''"
    by (subst b) (simp_all add: str_int_small)
  show "budget_of (set_max_memory ?args ?env) (Gpu 0) = Some ''1GiB''"
    by (subst b) (simp_all add: str_int_small)
qed

subsection \<open>The claims about \<open>set_max_memory\<close>\<close>



text \<open>
  C5. If the fraction is \<open>1.0\<close> or there is at most one device, the planner returns
  \<open>None\<close>, whatever the total memory.
\<close>

theorem set_max_memory_skipped:
  assumes "max_memory args = 1 \<or> device_count env \<le> 1"
  shows "set_max_memory args env = Inr None"
  using assms by (intro set_max_memory_skips) (auto simp: py_float_1)

theorem set_max_memory_skipped_witness:
  "set_max_memory (field_defaults ''gpt2'') \<lparr>device_count = 4, total_memory = 42949672960\<rparr> = Inr None
   \<and> set_max_memory ((field_defaults ''gpt2'')\<lparr>max_memory := 0.5\<rparr>)
        \<lparr>device_count = 1, total_memory = 85899345920\<rparr> = Inr None"
proof -
  have h1: "max_memory (field_defaults ''gpt2'') = 1
            \<or> device_count \<lparr>device_count = 4, total_memory = 42949672960\<rparr> \<le> 1"
    by (simp add: field_defaults_def)
  have h2: "max_memory ((field_defaults ''gpt2'')\<lparr>max_memory := 0.5\<rparr>) = 1
            \<or> device_count \<lparr>device_count = 1, total_memory = 85899345920\<rparr> \<le> 1"
    by simp
  from set_max_memory_skipped [OF h1] set_max_memory_skipped [OF h2] show ?thesis by simp
qed

text \<open>
  C6, as stated, fails: with two devices of 16 GiB and \<open>f = 0.12\<close>, device 0 and
  device 1 both get \<open>'1GiB'\<close> (the floors of the floats 1.92 and 1.152).
\<close>

theorem first_device_share_not_strict:
  "budget_of (set_max_memory ((field_defaults ''gpt2'')\<lparr>max_memory := 0.12\<rparr>)
               \<lparr>device_count = 2, total_memory = 17179869184\<rparr>) (Gpu 0) = Some ''1GiB''
   \<and> budget_of (set_max_memory ((field_defaults ''gpt2'')\<lparr>max_memory := 0.12\<rparr>)
               \<lparr>device_count = 2, total_memory = 17179869184\<rparr>) (Gpu 1) = Some ''1GiB''"
proof -
  let ?env = "\<lparr>device_count = 2, total_memory = 17179869184\<rparr>"
  let ?args = "(field_defaults ''gpt2'')\<lparr>max_memory := 0.12\<rparr>"
  have N: "1 < device_count ?env" by simp
  have f: "py_float (max_memory ?args) = Finite (8646911284551352 / 72057594037927936)"
    using py_float_012 by simp
  have t: "int_truediv (int (total_memory ?env)) (1024 * 1024 * 1024) = Inr (Finite 16)"
    using int_truediv_16 by simp
  note b = planned_budgets(1) [OF N f _ _ t fmul_16_012 fmul_192_06]
  have "budget_of (set_max_memory ?args ?env) (Gpu 0) = Some ''1GiB''"
    by (subst b) (simp_all add: str_int_small)
  moreover have "budget_of (set_max_memory ?args ?env) (Gpu 1) = Some ''1GiB''"
    by (subst b) (simp_all add: str_int_small)
  ultimately show ?thesis by simp
qed

text \<open>
  C6, amended. In a plan for more than one device with \<open>0 < f < 1\<close>, the budget of
  device 0 is never more than the budget of a device \<open>1..N-1\<close>; it is strictly less
  exactly when the float product \<open>T * f\<close> that the code computes is at least 2, or at
  least 1 and below 5/3, and the two budgets are equal otherwise (a product below 1,
  or from 5/3 up to 2). By \<open>GiB_inj\<close> the two numbers are the ones the strings render.
\<close>

theorem first_device_share_at_most:
  assumes N: "1 < device_count env"
    and f: "py_float (max_memory args) = Finite f" and f0: "0 < f" and f1: "f < 1"
    and t: "int_truediv (int (total_memory env)) (1024 * 1024 * 1024) = Inr (Finite T)"
    and i0: "0 < i" and iN: "i < device_count env"
  shows "\<exists>p b0 bi.
           fmul (Finite T) (Finite f) = Finite p
         \<and> budget_of (set_max_memory args env) (Gpu 0) = Some (str_int b0 @ ''GiB'')
         \<and> budget_of (set_max_memory args env) (Gpu i) = Some (str_int bi @ ''GiB'')
         \<and> b0 \<le> bi
         \<and> (b0 < bi \<longleftrightarrow> (1 \<le> p \<and> p < 5 / 3) \<or> 2 \<le> p)"
proof -
  from planner_products [OF t f0 f1] obtain p q
    where p: "fmul (Finite T) (Finite f) = Finite p"
      and q: "fmul (Finite p) (py_float 0.6) = Finite q"
      and pq: "0 \<le> q" "q \<le> p" and rp: "representable p" by blast
  have p0: "0 \<le> p" using pq by simp
  have fn: "f \<noteq> 0" "f \<noteq> 1" using f0 f1 by simp_all
  note b = planned_budgets(1) [OF N f fn t p q]
  have z: "0 < device_count env" using N by simp
  have b0: "budget_of (set_max_memory args env) (Gpu 0) = Some (str_int \<lfloor>q\<rfloor> @ ''GiB'')"
    using z by (simp add: b)
  have bi: "budget_of (set_max_memory args env) (Gpu i) = Some (str_int \<lfloor>p\<rfloor> @ ''GiB'')"
    using i0 iN by (simp add: b)
  from q have "round_double (p * (5404319552844595 / 9007199254740992)) = Finite q"
    by (simp only: py_float_06 fmul.simps)
  from first_device_share [OF rp p0 this] p b0 bi show ?thesis by blast
qed

theorem first_device_share_at_most_witness:
  "1 < device_count \<lparr>device_count = 2, total_memory = 42949672960\<rparr>
   \<and> py_float (max_memory ((field_defaults ''gpt2'')\<lparr>max_memory := 0.8\<rparr>))
       = Finite (3602879701896397 / 4503599627370496)
   \<and> (0::real) < 3602879701896397 / 4503599627370496
   \<and> (3602879701896397 / 4503599627370496 :: real) < 1
   \<and> int_truediv (int (total_memory \<lparr>device_count = 2, total_memory = 42949672960\<rparr>))
        (1024 * 1024 * 1024) = Inr (Finite 40)
   \<and> (0::nat) < 1
   \<and> fmul (Finite 40) (Finite (3602879701896397 / 4503599627370496)) = Finite 32
   \<and> (\<exists>b0 bi.
         budget_of (set_max_memory ((field_defaults ''gpt2'')\<lparr>max_memory := 0.8\<rparr>)
                      \<lparr>device_count = 2, total_memory = 42949672960\<rparr>) (Gpu 0)
           = Some (str_int b0 @ ''GiB'')
         \<and> budget_of (set_max_memory ((field_defaults ''gpt2'')\<lparr>max_memory := 0.8\<rparr>)
                      \<lparr>device_count = 2, total_memory = 42949672960\<rparr>) (Gpu 1)
           = Some (str_int bi @ ''GiB'')
         \<and> b0 < bi)"
proof -
  let ?env = "\<lparr>device_count = 2, total_memory = 42949672960\<rparr>"
  let ?args = "(field_defaults ''gpt2'')\<lparr>max_memory := 0.8\<rparr>"
  have h1: "1 < device_count ?env" by simp
  have h2: "py_float (max_memory ?args) = Finite (3602879701896397 / 4503599627370496)"
    using py_float_08 by simp
  have h3: "(0::real) < 3602879701896397 / 4503599627370496" by simp
  have h4: "(3602879701896397 / 4503599627370496 :: real) < 1" by simp
  have h5: "int_truediv (int (total_memory ?env)) (1024 * 1024 * 1024) = Inr (Finite 40)"
    using int_truediv_40 by simp
  have h6: "(0::nat) < 1" by simp
  from first_device_share_at_most [OF h1 h2 h3 h4 h5 h6 h1] obtain p b0 bi
    where p: "fmul (Finite 40) (Finite (3602879701896397 / 4503599627370496)) = Finite p"
      and b0: "budget_of (set_max_memory ?args ?env) (Gpu 0) = Some (str_int b0 @ ''GiB'')"
      and bi: "budget_of (set_max_memory ?args ?env) (Gpu 1) = Some (str_int bi @ ''GiB'')"
      and s: "b0 < bi \<longleftrightarrow> (1 \<le> p \<and> p < 5 / 3) \<or> 2 \<le> p"
    by blast
  from p have "p = 32" by (simp only: fmul_40_08 pyfloat.inject)
  with s have "b0 < bi" by simp
  with b0 bi have "\<exists>b0 bi. budget_of (set_max_memory ?args ?env) (Gpu 0) = Some (str_int b0 @ ''GiB'')
      \<and> budget_of (set_max_memory ?args ?env) (Gpu 1) = Some (str_int bi @ ''GiB'') \<and> b0 < bi"
    by blast
  with h1 h2 h3 h4 h5 h6 fmul_40_08 show ?thesis by blast
qed

section \<open>Properties of the orchestrator\<close>

text \<open>
  C7. For every configuration, once the inputs are tokenized and moved to the device,
  the result of \<open>generate_from_model\<close> is made from the backend's \<open>generate\<close>, called
  with \<open>early_stopping\<close> the negation of \<open>no_early_stop\<close> (and the other decoding
  parameters of the configuration), and from the backend's \<open>batch_decode\<close>, called on
  the generated tokens with \<open>skip_special_tokens=True\<close>; the decoded strings are
  reshaped by the number of rows of the tokenized input.
\<close>

theorem generate_from_model_backend_calls:
  assumes "tokenizer be inputs = Inr encoded_inputs"
    and "to_cuda be encoded_inputs = Inr input_ids"
  shows "generate_from_model be args inputs =
           (case generate be
                   \<lparr> kw_input_ids = input_ids,
                     kw_max_new_tokens = max_new_tokens args,
                     kw_min_length = min_length args,
                     kw_num_beams = num_beams args,
                     kw_num_return_sequences = num_return_sequences args,
                     kw_early_stopping = (\<not> no_early_stop args),
                     kw_do_sample = do_sample args,
                     kw_temperature = temperature args,
                     kw_top_k = top_k args,
                     kw_top_p = top_p args \<rparr> of
              Inl e \<Rightarrow> Inl e
            | Inr model_outputs \<Rightarrow>
                (case batch_decode be model_outputs True of
                   Inl e \<Rightarrow> Inl e
                 | Inr decoded \<Rightarrow>
                     reshape_model_outputs decoded (int (length encoded_inputs))))"
  unfolding generate_from_model_def Let_def using assms by simp

theorem generate_from_model_backend_calls_witness:
  "tokenizer \<lparr> tokenizer = (\<lambda>xs. Inr (map (\<lambda>x. [101, int (length x)]) xs)),
               to_cuda = (\<lambda>m. Inr m),
               generate = (\<lambda>kw. Inr (map (\<lambda>row. row @ (if kw_early_stopping kw then [1] else [2]))
                                          (kw_input_ids kw))),
               batch_decode = (\<lambda>m skip. Inr (map (\<lambda>row. (if skip then ''clean'' else ''raw'')
                                                      @ (if last row = 1 then ''-early'' else ''-full''))
                                                 m)) \<rparr>
      [''hello''] = Inr [[101, 5]]
   \<and> to_cuda \<lparr> tokenizer = (\<lambda>xs. Inr (map (\<lambda>x. [101, int (length x)]) xs)),
               to_cuda = (\<lambda>m. Inr m),
               generate = (\<lambda>kw. Inr (map (\<lambda>row. row @ (if kw_early_stopping kw then [1] else [2]))
                                          (kw_input_ids kw))),
               batch_decode = (\<lambda>m skip. Inr (map (\<lambda>row. (if skip then ''clean'' else ''raw'')
                                                      @ (if last row = 1 then ''-early'' else ''-full''))
                                                 m)) \<rparr>
      [[101, 5]] = Inr [[101, 5]]
   \<and> generate_from_model
        \<lparr> tokenizer = (\<lambda>xs. Inr (map (\<lambda>x. [101, int (length x)]) xs)),
          to_cuda = (\<lambda>m. Inr m),
          generate = (\<lambda>kw. Inr (map (\<lambda>row. row @ (if kw_early_stopping kw then [1] else [2]))
                                     (kw_input_ids kw))),
          batch_decode = (\<lambda>m skip. Inr (map (\<lambda>row. (if skip then ''clean'' else ''raw'')
                                                 @ (if last row = 1 then ''-early'' else ''-full''))
                                            m)) \<rparr>
        ((field_defaults ''gpt2'')\<lparr>no_early_stop := True\<rparr>) [''hello'']
      = Inr [[''clean-full'']]"
proof -
  let ?be = "\<lparr> tokenizer = (\<lambda>xs. Inr (map (\<lambda>x. [101, int (length x)]) xs)),
               to_cuda = (\<lambda>m. Inr m),
               generate = (\<lambda>kw. Inr (map (\<lambda>row. row @ (if kw_early_stopping kw then [1] else [2]))
                                          (kw_input_ids kw))),
               batch_decode = (\<lambda>m skip. Inr (map (\<lambda>row. (if skip then ''clean'' else ''raw'')
                                                      @ (if last row = 1 then ''-early'' else ''-full''))
                                                 m)) \<rparr>"
  let ?args = "(field_defaults ''gpt2'')\<lparr>no_early_stop := True\<rparr>"
  have h1: "tokenizer ?be [''hello''] = Inr [[101, 5]]" by simp
  have h2: "to_cuda ?be [[101, 5]] = Inr [[101, 5]]" by simp
  have r: "reshape_model_outputs [''clean-full''] 1 = Inr [[''clean-full'']]"
    by (simp add: reshape_model_outputs_def py_range_def range_length_def py_slice_def
          slice_bound_def)
  have "generate_from_model ?be ?args [''hello''] = Inr [[''clean-full'']]"
    by (subst generate_from_model_backend_calls [OF h1 h2]) (simp add: r)
  with h1 h2 show ?thesis by blast
qed

end
